theory Spec2Isabelle
  imports Complex_Main "HOL-Library.Sublist"
begin

section \<open>The code\<close>

text \<open>
  A verification model of the tree view's state and interaction engine. The definitions follow
  these source files; the paths under \<^verbatim>\<open>src/\<close> are where their text is found (one file there may
  hold several source files, one after the other).
  \<^item> \<^verbatim>\<open>lib/tree-utils.ts\<close> (\<^verbatim>\<open>flattenTree\<close>, \<^verbatim>\<open>buildTree\<close>, \<^verbatim>\<open>getVisibleNodes\<close>,
    \<^verbatim>\<open>getDescendantIds\<close>, \<^verbatim>\<open>getProjection\<close>, \<^verbatim>\<open>removeNodes\<close>, \<^verbatim>\<open>insertNodes\<close>,
    \<^verbatim>\<open>reindexSiblings\<close>): \<^verbatim>\<open>src/unnamed/part_002\<close>, lines 26 to 309.
  \<^item> \<^verbatim>\<open>lib/tree-types.ts\<close> (\<^verbatim>\<open>TreeNodeNested\<close>, \<^verbatim>\<open>FlatTreeNode\<close>) and
    \<^verbatim>\<open>hooks/use-tree-state.ts\<close> (\<^verbatim>\<open>toggleExpand\<close>, \<^verbatim>\<open>expand\<close>, \<^verbatim>\<open>collapse\<close>):
    \<^verbatim>\<open>src/registry/new-york/blocks/tree-view/lib/tree-types.ts\<close>, lines 1 to 89 and from line 321.
  \<^item> \<^verbatim>\<open>hooks/use-tree-dnd.ts\<close> (\<^verbatim>\<open>handleDragStart\<close>, \<^verbatim>\<open>handleDragOver\<close>, \<^verbatim>\<open>handleDragEnd\<close>):
    \<^verbatim>\<open>src/registry/new-york/blocks/tree-view/hooks/use-tree-dnd.ts\<close>.
  \<^item> \<^verbatim>\<open>hooks/use-tree-lazy.ts\<close> (\<^verbatim>\<open>triggerLoad\<close>) and \<^verbatim>\<open>tree-view.tsx\<close> (\<^verbatim>\<open>TreeViewDndContext\<close>):
    \<^verbatim>\<open>src/registry/new-york/blocks/tree-view/hooks/use-tree-lazy.ts\<close>, lines 1 to 76 and from line 77.
  Ids are strings, a \<^verbatim>\<open>Set<string>\<close> is a set of strings unless its order is read, and a value
  that may be \<^verbatim>\<open>null\<close> or \<^verbatim>\<open>undefined\<close> is an option.
\<close>

section \<open>Data model (lib/tree-types.ts)\<close>

text \<open>
  \<^verbatim>\<open>TreeNodeNested\<close>: the caller's nested format. The optional fields \<^verbatim>\<open>isGroup?\<close> and
  \<^verbatim>\<open>children?\<close> are options: \<open>None\<close> is \<^verbatim>\<open>undefined\<close>.
\<close>

datatype 'a TreeNodeNested =
  TreeNodeNested (nid: string) (ndata: 'a) (nisGroup: "bool option")
    (nchildren: "'a TreeNodeNested list option")

text \<open>
  \<^verbatim>\<open>FlatTreeNode\<close>: the engine's flat format. \<^verbatim>\<open>parentId: string | null\<close> is an option. The
  depth is an integer: the drag-end handler adds a possibly negative difference to it. The fields
  \<^verbatim>\<open>id\<close> and \<^verbatim>\<open>data\<close> are called \<open>fid\<close> and \<open>fdata\<close>.
\<close>

record 'a FlatTreeNode =
  fid :: string
  fdata :: 'a
  isGroup :: bool
  childrenLoaded :: bool
  parentId :: "string option"
  depth :: int
  index :: nat

section \<open>Nested to flat (lib/tree-utils.ts)\<close>

text \<open>
  \<^verbatim>\<open>flattenTree(nodes, parentId = null, depth = 0)\<close>. The first argument of the loop is the
  loop counter \<^verbatim>\<open>i\<close>; \<^verbatim>\<open>if (node.children)\<close> holds for every array, the empty one included.
\<close>

fun flattenLoop ::
  "nat \<Rightarrow> 'a TreeNodeNested list \<Rightarrow> string option \<Rightarrow> int \<Rightarrow> 'a FlatTreeNode list" where
  "flattenLoop i [] p d = []"
| "flattenLoop i (TreeNodeNested x dat g None # rest) p d =
     \<lparr>fid = x, fdata = dat, isGroup = (case g of Some b \<Rightarrow> b | None \<Rightarrow> False),
      childrenLoaded = False, parentId = p, depth = d, index = i\<rparr>
     # flattenLoop (Suc i) rest p d"
| "flattenLoop i (TreeNodeNested x dat g (Some cs) # rest) p d =
     \<lparr>fid = x, fdata = dat, isGroup = (case g of Some b \<Rightarrow> b | None \<Rightarrow> cs \<noteq> []),
      childrenLoaded = True, parentId = p, depth = d, index = i\<rparr>
     # flattenLoop 0 cs (Some x) (d + 1) @ flattenLoop (Suc i) rest p d"

definition flattenTree ::
  "'a TreeNodeNested list \<Rightarrow> string option \<Rightarrow> int \<Rightarrow> 'a FlatTreeNode list" where
  "flattenTree nodes p d = flattenLoop 0 nodes p d"

section \<open>Structural mutation (lib/tree-utils.ts)\<close>

text \<open>
  \<^verbatim>\<open>reindexSiblings\<close>: one counter per \<^verbatim>\<open>parentId\<close> key (\<^verbatim>\<open>null\<close> is a key of its own);
  \<^verbatim>\<open>indexCounters.get(key) ?? 0\<close> reads a missing counter as 0.
\<close>

fun reindexLoop ::
  "(string option \<rightharpoonup> nat) \<Rightarrow> 'a FlatTreeNode list \<Rightarrow> 'a FlatTreeNode list" where
  "reindexLoop indexCounters [] = []"
| "reindexLoop indexCounters (node # rest) =
     (let key = parentId node;
          currentIndex = (case indexCounters key of Some c \<Rightarrow> c | None \<Rightarrow> 0)
      in node\<lparr>index := currentIndex\<rparr>
         # reindexLoop (indexCounters(key \<mapsto> currentIndex + 1)) rest)"

definition reindexSiblings :: "'a FlatTreeNode list \<Rightarrow> 'a FlatTreeNode list" where
  "reindexSiblings flatNodes = reindexLoop Map.empty flatNodes"

text \<open>
  \<^verbatim>\<open>removeNodes\<close>: the set of removed ids grows during one forward pass over the array, then
  the array is filtered and reindexed.
\<close>

fun collectRemoved :: "'a FlatTreeNode list \<Rightarrow> string set \<Rightarrow> string set" where
  "collectRemoved [] removeSet = removeSet"
| "collectRemoved (node # rest) removeSet =
     (case parentId node of
        Some p \<Rightarrow> if p \<in> removeSet then collectRemoved rest (insert (fid node) removeSet)
                  else collectRemoved rest removeSet
      | None \<Rightarrow> collectRemoved rest removeSet)"

definition removeNodes :: "'a FlatTreeNode list \<Rightarrow> string list \<Rightarrow> 'a FlatTreeNode list" where
  "removeNodes flatNodes ids =
     (let removeSet = collectRemoved flatNodes (set ids)
      in reindexSiblings (filter (\<lambda>n. fid n \<notin> removeSet) flatNodes))"

text \<open>
  \<^verbatim>\<open>insertNodes\<close>: the loop looks for the array position of the sibling number
  \<^verbatim>\<open>targetIndex\<close> under \<^verbatim>\<open>targetParentId\<close>; \<open>None\<close> is the loop running to its end, which
  leaves \<^verbatim>\<open>insertAt\<close> at its default \<^verbatim>\<open>flatNodes.length\<close>. The target index is any integer (a
  number that is no sibling count never matches).
\<close>

fun findInsertAt ::
  "'a FlatTreeNode list \<Rightarrow> string option \<Rightarrow> int \<Rightarrow> nat \<Rightarrow> int \<Rightarrow> nat option" where
  "findInsertAt [] targetParentId targetIndex i siblingCount = None"
| "findInsertAt (node # rest) targetParentId targetIndex i siblingCount =
     (if parentId node = targetParentId then
        (if siblingCount = targetIndex then Some i
         else findInsertAt rest targetParentId targetIndex (Suc i) (siblingCount + 1))
      else findInsertAt rest targetParentId targetIndex (Suc i) siblingCount)"

definition insertPosition :: "'a FlatTreeNode list \<Rightarrow> string option \<Rightarrow> int \<Rightarrow> nat" where
  "insertPosition flatNodes targetParentId targetIndex =
     (case findInsertAt flatNodes targetParentId targetIndex 0 0 of
        Some i \<Rightarrow> i | None \<Rightarrow> length flatNodes)"

definition insertNodes ::
  "'a FlatTreeNode list \<Rightarrow> 'a FlatTreeNode list \<Rightarrow> string option \<Rightarrow> int \<Rightarrow> 'a FlatTreeNode list" where
  "insertNodes flatNodes nodesToInsert targetParentId targetIndex =
     (let insertAt = insertPosition flatNodes targetParentId targetIndex
      in reindexSiblings (take insertAt flatNodes @ nodesToInsert @ drop insertAt flatNodes))"

text \<open>
  The placement of \<^verbatim>\<open>insertAt\<close> as the specification words it, for comparison with
  \<open>insertPosition\<close>: before the child number \<^verbatim>\<open>targetIndex\<close> of the parent when there is
  one, and otherwise at the end of that parent's children, which is the position just past the last
  node of the array whose \<^verbatim>\<open>parentId\<close> is the target parent.
\<close>

definition endOfChildren :: "'a FlatTreeNode list \<Rightarrow> string option \<Rightarrow> nat" where
  "endOfChildren flatNodes targetParentId =
     length (dropWhile (\<lambda>n. parentId n \<noteq> targetParentId) (rev flatNodes))"

definition specInsertPosition :: "'a FlatTreeNode list \<Rightarrow> string option \<Rightarrow> int \<Rightarrow> nat" where
  "specInsertPosition flatNodes targetParentId targetIndex =
     (case findInsertAt flatNodes targetParentId targetIndex 0 0 of
        Some i \<Rightarrow> i | None \<Rightarrow> endOfChildren flatNodes targetParentId)"

definition specInsertAt ::
  "'a FlatTreeNode list \<Rightarrow> 'a FlatTreeNode list \<Rightarrow> string option \<Rightarrow> int \<Rightarrow> 'a FlatTreeNode list" where
  "specInsertAt flatNodes nodesToInsert targetParentId targetIndex =
     (let insertAt = specInsertPosition flatNodes targetParentId targetIndex
      in reindexSiblings (take insertAt flatNodes @ nodesToInsert @ drop insertAt flatNodes))"

section \<open>Visibility and expansion\<close>

text \<open>
  \<^verbatim>\<open>getVisibleNodes\<close> (lib/tree-utils.ts): one pass with the growing set
  \<^verbatim>\<open>collapsedAncestors\<close>. The test \<^verbatim>\<open>node.parentId !== null && collapsedAncestors.has(...)\<close> is
  the \<open>case\<close> on the parent.
\<close>

fun visibleLoop ::
  "'a FlatTreeNode list \<Rightarrow> string set \<Rightarrow> 'a FlatTreeNode list \<Rightarrow> string set
     \<Rightarrow> 'a FlatTreeNode list" where
  "visibleLoop [] expandedIds result collapsedAncestors = result"
| "visibleLoop (node # rest) expandedIds result collapsedAncestors =
     (if (case parentId node of Some p \<Rightarrow> p \<in> collapsedAncestors | None \<Rightarrow> False)
      then visibleLoop rest expandedIds result (insert (fid node) collapsedAncestors)
      else visibleLoop rest expandedIds (result @ [node])
             (if isGroup node \<and> fid node \<notin> expandedIds
              then insert (fid node) collapsedAncestors else collapsedAncestors))"

definition getVisibleNodes :: "'a FlatTreeNode list \<Rightarrow> string set \<Rightarrow> 'a FlatTreeNode list" where
  "getVisibleNodes flatNodes expandedIds = visibleLoop flatNodes expandedIds [] {}"

text \<open>
  \<^verbatim>\<open>getDescendantIds\<close> (lib/tree-utils.ts): one pass with the growing \<^verbatim>\<open>parentSet\<close>, which
  starts as the singleton of the given id.
\<close>

fun descendantLoop ::
  "'a FlatTreeNode list \<Rightarrow> string list \<Rightarrow> string set \<Rightarrow> string list" where
  "descendantLoop [] descendants parentSet = descendants"
| "descendantLoop (node # rest) descendants parentSet =
     (if (case parentId node of Some p \<Rightarrow> p \<in> parentSet | None \<Rightarrow> False)
      then descendantLoop rest (descendants @ [fid node]) (insert (fid node) parentSet)
      else descendantLoop rest descendants parentSet)"

definition getDescendantIds :: "'a FlatTreeNode list \<Rightarrow> string \<Rightarrow> string list" where
  "getDescendantIds flatNodes p = descendantLoop flatNodes [] {p}"

text \<open>
  The updaters that \<^verbatim>\<open>toggleExpand\<close>, \<^verbatim>\<open>expand\<close> and \<^verbatim>\<open>collapse\<close> (hooks/use-tree-state.ts)
  hand to \<^verbatim>\<open>setExpandedIds\<close>: functions from the previous expansion set to the next one.
\<close>

definition toggleExpand :: "'a FlatTreeNode list \<Rightarrow> string \<Rightarrow> string set \<Rightarrow> string set" where
  "toggleExpand flatNodes x prev =
     (if x \<in> prev then (prev - {x}) - set (getDescendantIds flatNodes x) else insert x prev)"

definition expand :: "string \<Rightarrow> string set \<Rightarrow> string set" where
  "expand x prev = (if x \<in> prev then prev else insert x prev)"

definition collapse :: "'a FlatTreeNode list \<Rightarrow> string \<Rightarrow> string set \<Rightarrow> string set" where
  "collapse flatNodes x prev =
     (if x \<notin> prev then prev else (prev - {x}) - set (getDescendantIds flatNodes x))"

section \<open>Ancestors and well-formed flat arrays\<close>

text \<open>
  \<open>isAncestor flatNodes a c\<close>: the id \<open>a\<close> is reached from the node with id \<open>c\<close> by following
  \<^verbatim>\<open>parentId\<close> one or more times.
\<close>

inductive isAncestor :: "'a FlatTreeNode list \<Rightarrow> string \<Rightarrow> string \<Rightarrow> bool"
  for flatNodes :: "'a FlatTreeNode list" where
  parent: "n \<in> set flatNodes \<Longrightarrow> parentId n = Some p \<Longrightarrow> isAncestor flatNodes p (fid n)"
| above: "n \<in> set flatNodes \<Longrightarrow> parentId n = Some p \<Longrightarrow> isAncestor flatNodes a p
          \<Longrightarrow> isAncestor flatNodes a (fid n)"

text \<open>
  \<open>parentsFirst {} flatNodes\<close>: the ids are unique and every \<^verbatim>\<open>parentId\<close> that is not
  \<^verbatim>\<open>null\<close> is the id of a node earlier in the array. Every pre-order array with valid parent
  references is of this kind; \<open>seen\<close> is the set of ids met so far.
\<close>

fun parentsFirst :: "string set \<Rightarrow> 'a FlatTreeNode list \<Rightarrow> bool" where
  "parentsFirst seen [] = True"
| "parentsFirst seen (node # rest) =
     (fid node \<notin> seen \<and> (case parentId node of Some p \<Rightarrow> p \<in> seen | None \<Rightarrow> True)
      \<and> parentsFirst (insert (fid node) seen) rest)"

text \<open>
  \<open>collapsedAbove\<close>: some ancestor of the id \<open>c\<close> is a group that is not expanded.
  \<open>blockedId\<close>: the id is such an id, or is itself a group that is not expanded.
\<close>

definition collapsedAbove :: "'a FlatTreeNode list \<Rightarrow> string set \<Rightarrow> string \<Rightarrow> bool" where
  "collapsedAbove flatNodes expandedIds c =
     (\<exists>a \<in> set flatNodes. isGroup a \<and> fid a \<notin> expandedIds \<and> isAncestor flatNodes (fid a) c)"

definition blockedId :: "'a FlatTreeNode list \<Rightarrow> string set \<Rightarrow> string \<Rightarrow> bool" where
  "blockedId flat E c \<longleftrightarrow>
     collapsedAbove flat E c \<or> (\<exists>a \<in> set flat. fid a = c \<and> isGroup a \<and> c \<notin> E)"

text \<open>The ids of a nested tree, in pre-order.\<close>

fun allIds :: "'a TreeNodeNested list \<Rightarrow> string list" where
  "allIds [] = []"
| "allIds (TreeNodeNested x dat g None # rest) = x # allIds rest"
| "allIds (TreeNodeNested x dat g (Some cs) # rest) = x # allIds cs @ allIds rest"

section \<open>Drop projection (lib/tree-utils.ts)\<close>

text \<open>
  The result of \<^verbatim>\<open>getProjection\<close>, \<^verbatim>\<open>{ depth, parentId }\<close>.
\<close>

record projection =
  projDepth :: int
  projParentId :: "string option"

text \<open>
  Pixel offsets and the indentation width are real numbers, depths are integers.
  \<^verbatim>\<open>Math.round\<close> rounds to the nearest integer, a half upwards. JavaScript's quotient by a zero
  width is \<^verbatim>\<open>Infinity\<close> or \<^verbatim>\<open>NaN\<close>, which this model has no value for: what is proved of
  \<^verbatim>\<open>getProjection\<close> assumes a width that is not zero.
\<close>

definition Math_round :: "real \<Rightarrow> int" where
  "Math_round x = \<lfloor>x + 1 / 2\<rfloor>"

text \<open>\<^verbatim>\<open>Array.prototype.findIndex\<close>: the first position that satisfies the test; \<open>None\<close> is -1.\<close>

fun findIndex :: "('a \<Rightarrow> bool) \<Rightarrow> 'a list \<Rightarrow> nat option" where
  "findIndex P [] = None"
| "findIndex P (x # xs) =
     (if P x then Some 0 else (case findIndex P xs of Some i \<Rightarrow> Some (Suc i) | None \<Rightarrow> None))"

text \<open>
  The loop \<^verbatim>\<open>for (let i = overIndex; i >= 0; i--)\<close> that looks for the parent: the nearest node at
  depth \<open>d\<close>, at position \<open>i\<close> or before it.
\<close>

fun scanBack :: "'a FlatTreeNode list \<Rightarrow> nat \<Rightarrow> int \<Rightarrow> string option" where
  "scanBack visibleNodes 0 d =
     (if depth (visibleNodes ! 0) = d then Some (fid (visibleNodes ! 0)) else None)"
| "scanBack visibleNodes (Suc i) d =
     (if depth (visibleNodes ! Suc i) = d then Some (fid (visibleNodes ! Suc i))
      else scanBack visibleNodes i d)"

text \<open>
  \<^verbatim>\<open>getProjection\<close>. \<^verbatim>\<open>visibleNodes[overIndex + 1]\<close> is \<^verbatim>\<open>undefined\<close> past the end of the array,
  which makes \<^verbatim>\<open>minDepth\<close> 0.
\<close>

definition getProjection ::
  "'a FlatTreeNode list \<Rightarrow> 'a FlatTreeNode list \<Rightarrow> string \<Rightarrow> string \<Rightarrow> real \<Rightarrow> real \<Rightarrow> projection" where
  "getProjection flatNodes visibleNodes activeId overId offsetX indentWidth =
     (case findIndex (\<lambda>n. fid n = overId) visibleNodes of
        None \<Rightarrow> \<lparr>projDepth = 0, projParentId = None\<rparr>
      | Some overIndex \<Rightarrow>
          (let overNode = visibleNodes ! overIndex;
               baseDepth = (case find (\<lambda>n. fid n = activeId) flatNodes of
                              Some activeNode \<Rightarrow> depth activeNode | None \<Rightarrow> depth overNode);
               depthDelta = Math_round (offsetX / indentWidth);
               projectedDepth = max 0 (baseDepth + depthDelta);
               maxDepth = (if isGroup overNode then depth overNode + 1 else depth overNode);
               minDepth = (if overIndex + 1 < length visibleNodes
                           then depth (visibleNodes ! (overIndex + 1)) else 0);
               clampedDepth = min (max projectedDepth minDepth) maxDepth;
               parentId = (if clampedDepth > 0 then scanBack visibleNodes overIndex (clampedDepth - 1)
                           else None)
           in \<lparr>projDepth = clampedDepth, projParentId = parentId\<rparr>))"

section \<open>Flat to nested (lib/tree-utils.ts)\<close>

text \<open>
  \<^verbatim>\<open>buildTree\<close> works on mutable objects, and what it returns depends on which objects share
  an array. The model keeps that sharing.

  The first loop fills \<^verbatim>\<open>nodeMap\<close> with one entry object per id (a later node with the same id
  replaces the entry). An entry's \<^verbatim>\<open>id\<close>, \<^verbatim>\<open>data\<close> and \<^verbatim>\<open>isGroup\<close> never change, so the
  map from ids to the flat node the entry was made from stands for them. An entry's
  \<^verbatim>\<open>children\<close> field is \<^verbatim>\<open>undefined\<close> or an array that belongs to this entry alone; the store
  \<open>arrays\<close> maps the entry's id to the contents of that array (\<open>None\<close>: the field is
  \<^verbatim>\<open>undefined\<close>). The marker \<^verbatim>\<open>_hasChildren\<close> is written and never read, and is left out.

  The second loop makes \<^verbatim>\<open>cleanNode\<close>, a shallow copy of the entry: its \<^verbatim>\<open>children\<close> field is
  \<^verbatim>\<open>undefined\<close> if the entry has no array at that moment, and otherwise a reference to the
  entry's array, written as the id that owns the array. What is pushed into the array later is
  seen through the reference; an array created later (\<^verbatim>\<open>parent.children = []\<close>) is not.
\<close>

record 'a cleanNode =
  cid :: string
  cdata :: 'a
  cisGroup :: "bool option"
  cchildren :: "string option"

type_synonym 'a objectGraph = "'a cleanNode list \<times> (string \<rightharpoonup> 'a cleanNode list)"

fun nodeMapLoop ::
  "'a FlatTreeNode list \<Rightarrow> (string \<rightharpoonup> 'a FlatTreeNode) \<Rightarrow> (string \<rightharpoonup> 'a FlatTreeNode)" where
  "nodeMapLoop [] nodeMap = nodeMap"
| "nodeMapLoop (flat # rest) nodeMap = nodeMapLoop rest (nodeMap(fid flat \<mapsto> flat))"

definition initialArrays ::
  "(string \<rightharpoonup> 'a FlatTreeNode) \<Rightarrow> (string \<rightharpoonup> 'a cleanNode list)" where
  "initialArrays nodeMap x =
     (case nodeMap x of
        Some flat \<Rightarrow> if childrenLoaded flat then Some [] else None
      | None \<Rightarrow> None)"

fun linkLoop ::
  "(string \<rightharpoonup> 'a FlatTreeNode) \<Rightarrow> 'a FlatTreeNode list \<Rightarrow> 'a objectGraph \<Rightarrow> 'a objectGraph" where
  "linkLoop nodeMap [] graph = graph"
| "linkLoop nodeMap (flat # rest) (roots, arrays) =
     (case nodeMap (fid flat) of
        None \<Rightarrow> linkLoop nodeMap rest (roots, arrays)
      | Some node \<Rightarrow>
          (let cleanNode = \<lparr>cid = fid node, cdata = fdata node,
                 cisGroup = (if isGroup node then Some True else None),
                 cchildren = (case arrays (fid flat) of Some cs \<Rightarrow> Some (fid flat) | None \<Rightarrow> None)\<rparr>
           in case parentId flat of
                None \<Rightarrow> linkLoop nodeMap rest (roots @ [cleanNode], arrays)
              | Some p \<Rightarrow>
                  (case nodeMap p of
                     None \<Rightarrow> linkLoop nodeMap rest (roots, arrays)
                   | Some parent \<Rightarrow>
                       linkLoop nodeMap rest
                         (roots, arrays(p \<mapsto> (case arrays p of Some cs \<Rightarrow> cs | None \<Rightarrow> [])
                                                @ [cleanNode])))))"

definition buildTree :: "'a FlatTreeNode list \<Rightarrow> 'a objectGraph" where
  "buildTree flatNodes =
     (let nodeMap = nodeMapLoop flatNodes Map.empty
      in linkLoop nodeMap flatNodes ([], initialArrays nodeMap))"

text \<open>
  The nested tree that an object graph denotes, followed to depth \<open>k\<close>: \<open>None\<close> when the
  graph is deeper (a graph with a cycle is deeper than every \<open>k\<close>). \<open>builtTree\<close> reads the
  result of \<^verbatim>\<open>buildTree\<close> to a depth that no tree over the array's nodes exceeds.
\<close>

fun readNode ::
  "nat \<Rightarrow> (string \<rightharpoonup> 'a cleanNode list) \<Rightarrow> 'a cleanNode \<Rightarrow> 'a TreeNodeNested option" where
  "readNode 0 arrays c = None"
| "readNode (Suc k) arrays c =
     (case cchildren c of
        None \<Rightarrow> Some (TreeNodeNested (cid c) (cdata c) (cisGroup c) None)
      | Some r \<Rightarrow>
          (case arrays r of
             None \<Rightarrow> None
           | Some cs \<Rightarrow>
               (case those (map (readNode k arrays) cs) of
                  None \<Rightarrow> None
                | Some ts \<Rightarrow> Some (TreeNodeNested (cid c) (cdata c) (cisGroup c) (Some ts)))))"

definition readTree :: "nat \<Rightarrow> 'a objectGraph \<Rightarrow> 'a TreeNodeNested list option" where
  "readTree k graph = those (map (readNode k (snd graph)) (fst graph))"

definition builtTree :: "'a FlatTreeNode list \<Rightarrow> 'a TreeNodeNested list option" where
  "builtTree flatNodes = readTree (Suc (length flatNodes)) (buildTree flatNodes)"

text \<open>
  What the second loop has built after a prefix \<open>pre\<close> of a well-formed array: the copy of
  each node, the roots, and the arrays.
\<close>

definition cleanRow :: "'a FlatTreeNode \<Rightarrow> 'a cleanNode" where
  "cleanRow f = \<lparr>cid = fid f, cdata = fdata f,
                 cisGroup = (if isGroup f then Some True else None),
                 cchildren = (if childrenLoaded f then Some (fid f) else None)\<rparr>"

definition rootsOf :: "'a FlatTreeNode list \<Rightarrow> 'a cleanNode list" where
  "rootsOf pre = map cleanRow (filter (\<lambda>f. parentId f = None) pre)"

definition arraysOf ::
  "(string \<rightharpoonup> 'a FlatTreeNode) \<Rightarrow> 'a FlatTreeNode list \<Rightarrow> (string \<rightharpoonup> 'a cleanNode list)" where
  "arraysOf nm pre y =
     (case nm y of
        None \<Rightarrow> None
      | Some fy \<Rightarrow>
          if childrenLoaded fy \<or> (\<exists>c \<in> set pre. parentId c = Some y)
          then Some (map cleanRow (filter (\<lambda>f. parentId f = Some y) pre)) else None)"

text \<open>
  The nested tree with every \<^verbatim>\<open>isGroup\<close> replaced by what the round trip leaves: \<^verbatim>\<open>true\<close> when
  the flag is \<^verbatim>\<open>true\<close>, or absent on a node with at least one child, and absent otherwise.
\<close>

fun derivedIsGroup :: "'a TreeNodeNested list \<Rightarrow> 'a TreeNodeNested list" where
  "derivedIsGroup [] = []"
| "derivedIsGroup (TreeNodeNested x dat g None # rest) =
     TreeNodeNested x dat (if (case g of Some b \<Rightarrow> b | None \<Rightarrow> False) then Some True else None) None
     # derivedIsGroup rest"
| "derivedIsGroup (TreeNodeNested x dat g (Some cs) # rest) =
     TreeNodeNested x dat (if (case g of Some b \<Rightarrow> b | None \<Rightarrow> cs \<noteq> []) then Some True else None)
       (Some (derivedIsGroup cs))
     # derivedIsGroup rest"

text \<open>
  Nested-side counterparts for the proof of the round trip: the copy made for a nested node, the
  copies of the nodes under parent \<open>q\<close> in a forest flattened under parent \<open>p\<close>, the arrays
  a forest expects, the ids whose \<^verbatim>\<open>children\<close> are present, and the height of a forest.
\<close>

fun cleanOf :: "'a TreeNodeNested \<Rightarrow> 'a cleanNode" where
  "cleanOf (TreeNodeNested x dat g None) =
     \<lparr>cid = x, cdata = dat,
      cisGroup = (if (case g of Some b \<Rightarrow> b | None \<Rightarrow> False) then Some True else None),
      cchildren = None\<rparr>"
| "cleanOf (TreeNodeNested x dat g (Some cs)) =
     \<lparr>cid = x, cdata = dat,
      cisGroup = (if (case g of Some b \<Rightarrow> b | None \<Rightarrow> cs \<noteq> []) then Some True else None),
      cchildren = Some x\<rparr>"

fun kidsOf :: "string option \<Rightarrow> string option \<Rightarrow> 'a TreeNodeNested list \<Rightarrow> 'a cleanNode list" where
  "kidsOf q p [] = []"
| "kidsOf q p (TreeNodeNested x dat g None # rest) =
     (if p = q then [cleanOf (TreeNodeNested x dat g None)] else []) @ kidsOf q p rest"
| "kidsOf q p (TreeNodeNested x dat g (Some cs) # rest) =
     (if p = q then [cleanOf (TreeNodeNested x dat g (Some cs))] else [])
     @ kidsOf q (Some x) cs @ kidsOf q p rest"

fun agrees :: "(string \<rightharpoonup> 'a cleanNode list) \<Rightarrow> 'a TreeNodeNested list \<Rightarrow> bool" where
  "agrees A [] = True"
| "agrees A (TreeNodeNested x dat g None # rest) = agrees A rest"
| "agrees A (TreeNodeNested x dat g (Some cs) # rest) =
     (A x = Some (map cleanOf cs) \<and> agrees A cs \<and> agrees A rest)"

fun loadedIds :: "'a TreeNodeNested list \<Rightarrow> string set" where
  "loadedIds [] = {}"
| "loadedIds (TreeNodeNested x dat g None # rest) = loadedIds rest"
| "loadedIds (TreeNodeNested x dat g (Some cs) # rest) = insert x (loadedIds cs \<union> loadedIds rest)"

fun height :: "'a TreeNodeNested list \<Rightarrow> nat" where
  "height [] = 0"
| "height (TreeNodeNested x dat g None # rest) = max 1 (height rest)"
| "height (TreeNodeNested x dat g (Some cs) # rest) = max (Suc (height cs)) (height rest)"

text \<open>
  Structural equivalence as C1 words it: the same ids, data, children and order, and the same
  \<^verbatim>\<open>isGroup\<close>, except that a flag that is \<^verbatim>\<open>false\<close> or absent may have been removed from a node
  that holds no children.
\<close>

fun sameUpToDefault :: "'a TreeNodeNested list \<Rightarrow> 'a TreeNodeNested list \<Rightarrow> bool" where
  "sameUpToDefault [] [] = True"
| "sameUpToDefault (TreeNodeNested x dat g None # rest) (TreeNodeNested x' dat' g' None # rest') =
     (x = x' \<and> dat = dat' \<and> (g' = g \<or> (g \<noteq> Some True \<and> g' = None))
      \<and> sameUpToDefault rest rest')"
| "sameUpToDefault (TreeNodeNested x dat g (Some cs) # rest)
       (TreeNodeNested x' dat' g' (Some cs') # rest') =
     (x = x' \<and> dat = dat' \<and> (g' = g \<or> (cs = [] \<and> g \<noteq> Some True \<and> g' = None))
      \<and> sameUpToDefault cs cs' \<and> sameUpToDefault rest rest')"
| "sameUpToDefault xs ys = False"

section \<open>Ancestor ids (lib/tree-utils.ts)\<close>

text \<open>
  \<^verbatim>\<open>getAncestorIds\<close> follows \<^verbatim>\<open>parentId\<close> through a map from ids to nodes, built like the
  \<^verbatim>\<open>nodeMap\<close> of \<^verbatim>\<open>buildTree\<close>. Its \<^verbatim>\<open>while\<close> loop does not end on a cycle of parents, so the
  model counts the steps: \<open>None\<close> is a loop that has not ended after one step more than the
  array has nodes.
\<close>

fun ancestorLoop ::
  "nat \<Rightarrow> (string \<rightharpoonup> 'a FlatTreeNode) \<Rightarrow> 'a FlatTreeNode option \<Rightarrow> string list
     \<Rightarrow> string list option" where
  "ancestorLoop 0 nodeMap current ancestors = None"
| "ancestorLoop (Suc fuel) nodeMap current ancestors =
     (case current of
        None \<Rightarrow> Some ancestors
      | Some c \<Rightarrow>
          (case parentId c of
             None \<Rightarrow> Some ancestors
           | Some p \<Rightarrow> ancestorLoop fuel nodeMap (nodeMap p) (ancestors @ [p])))"

definition getAncestorIds :: "'a FlatTreeNode list \<Rightarrow> string \<Rightarrow> string list option" where
  "getAncestorIds flatNodes nodeId =
     (let nodeMap = nodeMapLoop flatNodes Map.empty
      in ancestorLoop (Suc (length flatNodes)) nodeMap (nodeMap nodeId) [])"

section \<open>Drag and drop within one tree (hooks/use-tree-dnd.ts)\<close>

text \<open>
  The drag library is a black box that calls the three handlers with an operation: the ids of the
  source and of the target (each may be absent), the horizontal part of the transform, and the
  cancellation flag.
\<close>

datatype DropPosition = Before | After | Inside

datatype SelectionMode = NoSelection | Single | Multiple

record 'a TreeDragEvent =
  evSource :: "'a FlatTreeNode"
  evSourceTreeId :: string
  evTarget :: "'a FlatTreeNode"
  evTargetTreeId :: string
  evPosition :: DropPosition
  evProjectedDepth :: int

record DragOperation =
  opSource :: "string option"
  opTarget :: "string option"
  opTransformX :: "real option"
  opCanceled :: bool

text \<open>
  The state of \<^verbatim>\<open>useTreeDnd\<close>: the five \<^verbatim>\<open>useState\<close> cells (a setter is modelled as taking effect
  at once), the three refs that mirror the projection, the hover timer (the id that a pending
  \<^verbatim>\<open>setTimeout\<close> will expand; \<^verbatim>\<open>clearTimeout\<close> empties it), the hover target, and the
  horizontal offset of \<^verbatim>\<open>offsetRef\<close> (the vertical one is never read).
\<close>

record DndSession =
  activeId :: "string option"
  overId :: "string option"
  dropPosition :: "DropPosition option"
  projectedDepth :: "int option"
  projectedParentId :: "string option"
  dropPositionRef :: "DropPosition option"
  projectedDepthRef :: "int option"
  projectedParentIdRef :: "string option"
  hoverTimer :: "string option"
  hoverTarget :: "string option"
  offsetX :: real

text \<open>
  The options of the hook. The selection, a \<^verbatim>\<open>Set<string>\<close>, is the list of its members in
  insertion order. The optional callbacks \<^verbatim>\<open>onItemsChange\<close>, \<^verbatim>\<open>onDragStart\<close> and \<^verbatim>\<open>onDragEnd\<close>
  are flags that say whether the callback is configured; a call is written to the list of emitted
  callbacks that each handler returns. \<^verbatim>\<open>onItemsChange\<close> receives the tree that \<^verbatim>\<open>buildTree\<close>
  returns, read as a nested tree.
\<close>

record 'a DndOptions =
  treeId :: string
  treeFlatNodes :: "'a FlatTreeNode list"
  treeVisibleNodes :: "'a FlatTreeNode list"
  treeExpandedIds :: "string set"
  treeSelectedIds :: "string list"
  selectionMode :: SelectionMode
  indentationWidth :: real
  canDrop :: "('a TreeDragEvent \<Rightarrow> bool) option"
  hasOnItemsChange :: bool
  hasOnDragStart :: bool
  hasOnDragEnd :: bool
  expandOnDragHover :: bool

text \<open>The calls a tree's handlers make to the callbacks of its caller.\<close>

datatype 'a Callback =
  ItemsChange "'a TreeNodeNested list option"
| DragStartEvent "'a TreeDragEvent"
| DragEndEvent "'a TreeDragEvent"

text \<open>The session before a drag, and \<^verbatim>\<open>resetState\<close> of \<^verbatim>\<open>handleDragEnd\<close>.\<close>

definition idleSession :: DndSession where
  "idleSession = \<lparr>activeId = None, overId = None, dropPosition = None, projectedDepth = None,
     projectedParentId = None, dropPositionRef = None, projectedDepthRef = None,
     projectedParentIdRef = None, hoverTimer = None, hoverTarget = None, offsetX = 0\<rparr>"

definition resetState :: "DndSession \<Rightarrow> DndSession" where
  "resetState st = st\<lparr>activeId := None, overId := None, dropPosition := None,
     projectedDepth := None, projectedParentId := None, dropPositionRef := None,
     projectedDepthRef := None, projectedParentIdRef := None\<rparr>"

text \<open>\<^verbatim>\<open>handleDragStart\<close>: nothing happens without a source, or for a source that is not a node of this tree.\<close>

definition handleDragStart ::
  "'a DndOptions \<Rightarrow> DndSession \<Rightarrow> DragOperation \<Rightarrow> DndSession \<times> 'a Callback list" where
  "handleDragStart opts st op =
     (case opSource op of
        None \<Rightarrow> (st, [])
      | Some sourceId \<Rightarrow>
          (case find (\<lambda>n. fid n = sourceId) (treeFlatNodes opts) of
             None \<Rightarrow> (st, [])
           | Some sourceNode \<Rightarrow>
               (st\<lparr>activeId := Some sourceId, offsetX := 0\<rparr>,
                if hasOnDragStart opts
                then [DragStartEvent \<lparr>evSource = sourceNode, evSourceTreeId = treeId opts,
                        evTarget = sourceNode, evTargetTreeId = treeId opts,
                        evPosition = Before, evProjectedDepth = depth sourceNode\<rparr>]
                else [])))"

text \<open>
  The set \<^verbatim>\<open>allIdsToMove\<close> that both handlers build: the given ids and, for each of them, the ids
  that \<^verbatim>\<open>getDescendantIds\<close> returns.
\<close>

definition withDescendants :: "'a FlatTreeNode list \<Rightarrow> string list \<Rightarrow> string set" where
  "withDescendants flat ids = set ids \<union> set (concat (map (getDescendantIds flat) ids))"

text \<open>
  \<^verbatim>\<open>handleDragOver\<close>. The branch that rejects a hover (the projected parent is in the moving set)
  clears \<^verbatim>\<open>overId\<close> and \<^verbatim>\<open>dropPosition\<close> and returns; it writes none of the refs. \<open>st2\<close> is the
  session after the projection is stored, \<open>st3\<close> after the drop position is; the last step is
  the hover timer.
\<close>

definition handleDragOver :: "'a DndOptions \<Rightarrow> DndSession \<Rightarrow> DragOperation \<Rightarrow> DndSession" where
  "handleDragOver opts st op =
     (case (opSource op, opTarget op) of
        (Some sourceId, Some targetId) \<Rightarrow>
          (let st1 = st\<lparr>overId := Some targetId,
                         offsetX := (case opTransformX op of Some x \<Rightarrow> x | None \<Rightarrow> offsetX st)\<rparr>;
               projection = getProjection (treeFlatNodes opts) (treeVisibleNodes opts)
                              sourceId targetId (offsetX st1) (indentationWidth opts);
               movingIds = (if selectionMode opts = Multiple \<and> sourceId \<in> set (treeSelectedIds opts)
                            then treeSelectedIds opts else [sourceId])
           in if (case projParentId projection of
                    Some p \<Rightarrow> p \<in> withDescendants (treeFlatNodes opts) movingIds
                  | None \<Rightarrow> False)
              then st1\<lparr>overId := None, dropPosition := None\<rparr>
              else
                (let st2 = st1\<lparr>projectedDepth := Some (projDepth projection),
                                 projectedParentId := projParentId projection,
                                 projectedDepthRef := Some (projDepth projection),
                                 projectedParentIdRef := projParentId projection\<rparr>;
                     st3 = (case find (\<lambda>n. fid n = targetId) (treeFlatNodes opts) of
                              None \<Rightarrow> st2
                            | Some targetNode \<Rightarrow>
                                (let isExpandedEmptyGroup =
                                       (isGroup targetNode \<and> targetId \<in> treeExpandedIds opts
                                        \<and> \<not> list_ex (\<lambda>n. parentId n = Some targetId)
                                              (treeVisibleNodes opts));
                                     position =
                                       (if isGroup targetNode
                                           \<and> (projParentId projection = Some targetId
                                                \<or> isExpandedEmptyGroup)
                                        then Inside else After);
                                     st2' = (if isExpandedEmptyGroup \<and> position = Inside
                                             then st2\<lparr>projectedDepth := Some (depth targetNode + 1),
                                                       projectedParentId := Some targetId,
                                                       projectedDepthRef := Some (depth targetNode + 1),
                                                       projectedParentIdRef := Some targetId\<rparr>
                                             else st2)
                                 in st2'\<lparr>dropPosition := Some position,
                                         dropPositionRef := Some position\<rparr>))
                 in if expandOnDragHover opts \<and> Some targetId \<noteq> hoverTarget st3
                    then st3\<lparr>hoverTarget := Some targetId,
                             hoverTimer :=
                               (case find (\<lambda>n. fid n = targetId) (treeFlatNodes opts) of
                                  Some hoverNode \<Rightarrow>
                                    if isGroup hoverNode \<and> targetId \<notin> treeExpandedIds opts
                                       \<and> targetId \<noteq> sourceId
                                    then Some targetId else None
                                | None \<Rightarrow> None)\<rparr>
                    else st3))
      | _ \<Rightarrow> st\<lparr>overId := None, dropPosition := None\<rparr>)"

text \<open>
  The parts of \<^verbatim>\<open>handleDragEnd\<close>. \<open>rootIdsToMove\<close>: the selected ids that are no descendant of a
  selected id when several nodes move, the dragged node otherwise. \<open>dropIndex\<close>: the position
  in the remaining array, after the target node (\<^verbatim>\<open>inside\<close>), after the nodes that follow the
  target and are deeper than it (the \<^verbatim>\<open>while\<close> loop, otherwise), or the end of the array when the
  target is not in the remaining array. \<open>movedFlatNodes\<close>: the array handed to \<^verbatim>\<open>buildTree\<close>.
\<close>

definition rootIdsToMove :: "'a DndOptions \<Rightarrow> 'a FlatTreeNode \<Rightarrow> string list" where
  "rootIdsToMove opts sourceNode =
     (if selectionMode opts = Multiple \<and> fid sourceNode \<in> set (treeSelectedIds opts)
         \<and> length (treeSelectedIds opts) > 1
      then (let allDescendants =
                  set (concat (map (getDescendantIds (treeFlatNodes opts)) (treeSelectedIds opts)))
            in filter (\<lambda>x. x \<notin> allDescendants) (treeSelectedIds opts))
      else [fid sourceNode])"

definition dropIndex ::
  "'a FlatTreeNode list \<Rightarrow> string \<Rightarrow> DropPosition option \<Rightarrow> nat" where
  "dropIndex remaining targetId currentDropPosition =
     (case findIndex (\<lambda>n. fid n = targetId) remaining of
        None \<Rightarrow> length remaining
      | Some targetFlatIdx \<Rightarrow>
          if currentDropPosition = Some Inside then targetFlatIdx + 1
          else targetFlatIdx + 1
               + length (takeWhile (\<lambda>n. depth n > depth (remaining ! targetFlatIdx))
                           (drop (targetFlatIdx + 1) remaining)))"

definition movedFlatNodes ::
  "'a DndOptions \<Rightarrow> DndSession \<Rightarrow> 'a FlatTreeNode \<Rightarrow> string \<Rightarrow> 'a FlatTreeNode list" where
  "movedFlatNodes opts st sourceNode targetId =
     (let flat = treeFlatNodes opts;
          roots = rootIdsToMove opts sourceNode;
          allIdsToMove = withDescendants flat roots;
          draggedNodes = filter (\<lambda>n. fid n \<in> allIdsToMove) flat;
          remaining = removeNodes flat roots;
          depthDiff = (case projectedDepthRef st of Some d \<Rightarrow> d | None \<Rightarrow> 0) - depth sourceNode;
          updatedDragged =
            map (\<lambda>n. if fid n \<in> set roots
                      then n\<lparr>depth := depth n + depthDiff, parentId := projectedParentIdRef st\<rparr>
                      else n\<lparr>depth := depth n + depthDiff\<rparr>) draggedNodes;
          insertAt = dropIndex remaining targetId (dropPositionRef st)
      in take insertAt remaining @ updatedDragged @ drop insertAt remaining)"

text \<open>
  \<^verbatim>\<open>handleDragEnd\<close>. The projection is read from the refs. The guard against a cycle stands
  inside \<^verbatim>\<open>if (onItemsChange)\<close> and tests \<^verbatim>\<open>currentProjectedParentId && ...\<close>: a \<^verbatim>\<open>null\<close> and an
  empty string both fail the test. When the guard fires the handler returns before it calls
  \<^verbatim>\<open>onDragEnd\<close>.
\<close>

definition handleDragEnd ::
  "'a DndOptions \<Rightarrow> DndSession \<Rightarrow> DragOperation \<Rightarrow> DndSession \<times> 'a Callback list" where
  "handleDragEnd opts st op =
     (let st1 = st\<lparr>hoverTimer := None, hoverTarget := None\<rparr>
      in if opCanceled op then (resetState st1, [])
         else
           (case (opSource op, opTarget op) of
              (Some sourceId, Some targetId) \<Rightarrow>
                (case (find (\<lambda>n. fid n = sourceId) (treeFlatNodes opts),
                       find (\<lambda>n. fid n = targetId) (treeFlatNodes opts)) of
                   (Some sourceNode, Some targetNode) \<Rightarrow>
                     (let dragEvent =
                            \<lparr>evSource = sourceNode, evSourceTreeId = treeId opts,
                             evTarget = targetNode, evTargetTreeId = treeId opts,
                             evPosition = (case dropPositionRef st of Some p \<Rightarrow> p | None \<Rightarrow> After),
                             evProjectedDepth = (case projectedDepthRef st of
                                                   Some d \<Rightarrow> d | None \<Rightarrow> depth targetNode)\<rparr>;
                          notifyEnd = (if hasOnDragEnd opts then [DragEndEvent dragEvent] else [])
                      in if (case canDrop opts of Some allowed \<Rightarrow> \<not> allowed dragEvent | None \<Rightarrow> False)
                         then (resetState st1, [])
                         else if hasOnItemsChange opts
                         then
                           (if (case projectedParentIdRef st of
                                  Some p \<Rightarrow> p \<noteq> [] \<and> p \<in> withDescendants (treeFlatNodes opts)
                                                               (rootIdsToMove opts sourceNode)
                                | None \<Rightarrow> False)
                            then (resetState st1, [])
                            else (resetState st1,
                                  ItemsChange (builtTree (movedFlatNodes opts st sourceNode targetId))
                                  # notifyEnd))
                         else (resetState st1, notifyEnd))
                 | _ \<Rightarrow> (resetState st1, []))
            | _ \<Rightarrow> (resetState st1, [])))"

section \<open>Drag and drop across trees (tree-view.tsx, TreeViewDndContext)\<close>

text \<open>
  A registration exposes a tree's handlers, its flat nodes and its current projection; here it is
  the tree's options together with its session. The registry is a \<^verbatim>\<open>Map\<close> keyed by tree id, the
  list of its values in insertion order. The group's \<^verbatim>\<open>onDragEnd\<close> is optional; what it receives
  is the operation and the \<^verbatim>\<open>crossTree\<close> information when there is one.
\<close>

record 'a Registration =
  regOptions :: "'a DndOptions"
  regSession :: DndSession

record CrossTreeDragInfo =
  crossSourceTreeId :: string
  crossTargetTreeId :: string
  crossDropPosition :: "DropPosition option"
  crossProjectedDepth :: "int option"
  crossProjectedParentId :: "string option"

record 'a DndGroup =
  registrations :: "'a Registration list"
  lastOverTree :: "string option"

record 'a GroupResult =
  groupAfter :: "'a DndGroup"
  groupEmitted :: "(DragOperation \<times> CrossTreeDragInfo option) list"
  treeEmitted :: "'a Callback list"

text \<open>
  \<^verbatim>\<open>findOwnerTree\<close>: the first registration whose flat nodes hold the id. \<open>endOne\<close> calls the
  \<^verbatim>\<open>handleDragEnd\<close> of one registered tree and stores the session it leaves; \<open>endAll\<close> does so
  for every registration. A registration reads the projection from the tree's state cells, taken
  here as they stand when the handler runs.
\<close>

definition findOwnerTree :: "'a Registration list \<Rightarrow> string \<Rightarrow> 'a Registration option" where
  "findOwnerTree regs nodeId =
     find (\<lambda>reg. list_ex (\<lambda>n. fid n = nodeId) (treeFlatNodes (regOptions reg))) regs"

fun endAll ::
  "'a Registration list \<Rightarrow> DragOperation \<Rightarrow> 'a Registration list \<times> 'a Callback list" where
  "endAll [] op = ([], [])"
| "endAll (reg # rest) op =
     (let (st, out) = handleDragEnd (regOptions reg) (regSession reg) op;
          (rest', outs) = endAll rest op
      in (reg\<lparr>regSession := st\<rparr> # rest', out @ outs))"

definition endOne ::
  "'a Registration list \<Rightarrow> 'a Registration \<Rightarrow> DragOperation
     \<Rightarrow> 'a Registration list \<times> 'a Callback list" where
  "endOne regs tree op =
     (case find (\<lambda>reg. treeId (regOptions reg) = treeId (regOptions tree)) regs of
        None \<Rightarrow> (regs, [])
      | Some reg \<Rightarrow>
          (let (st, out) = handleDragEnd (regOptions reg) (regSession reg) op
           in (map (\<lambda>r. if treeId (regOptions r) = treeId (regOptions tree)
                          then r\<lparr>regSession := st\<rparr> else r) regs, out)))"

text \<open>
  \<^verbatim>\<open>handleDragEnd\<close> of \<^verbatim>\<open>TreeViewDndContext\<close>. The result holds the group afterwards, the calls of
  the group's \<^verbatim>\<open>onDragEnd\<close>, and the callbacks the trees emitted.
\<close>

definition groupHandleDragEnd :: "bool \<Rightarrow> 'a DndGroup \<Rightarrow> DragOperation \<Rightarrow> 'a GroupResult" where
  "groupHandleDragEnd hasGroupOnDragEnd grp op =
     (let regs = registrations grp;
          notify = (\<lambda>crossTree. if hasGroupOnDragEnd then [(op, crossTree)] else [])
      in case (opSource op, opTarget op) of
           (Some sourceId, Some targetId) \<Rightarrow>
             (case (findOwnerTree regs sourceId, findOwnerTree regs targetId) of
                (Some sourceTree, Some targetTree) \<Rightarrow>
                  if treeId (regOptions sourceTree) = treeId (regOptions targetTree)
                  then (let (regs1, out1) = endOne regs sourceTree op
                        in \<lparr>groupAfter = \<lparr>registrations = regs1, lastOverTree = None\<rparr>,
                            groupEmitted = notify None, treeEmitted = out1\<rparr>)
                  else (let crossTree =
                              \<lparr>crossSourceTreeId = treeId (regOptions sourceTree),
                               crossTargetTreeId = treeId (regOptions targetTree),
                               crossDropPosition = dropPosition (regSession targetTree),
                               crossProjectedDepth = projectedDepth (regSession targetTree),
                               crossProjectedParentId = projectedParentId (regSession targetTree)\<rparr>;
                            (regs1, out1) = endOne regs sourceTree (op\<lparr>opCanceled := True\<rparr>);
                            (regs2, out2) = endOne regs1 targetTree (op\<lparr>opCanceled := True\<rparr>)
                        in \<lparr>groupAfter = \<lparr>registrations = regs2, lastOverTree = None\<rparr>,
                            groupEmitted = notify (Some crossTree), treeEmitted = out1 @ out2\<rparr>)
              | _ \<Rightarrow> \<lparr>groupAfter = grp\<lparr>lastOverTree := None\<rparr>,
                       groupEmitted = notify None, treeEmitted = []\<rparr>)
         | _ \<Rightarrow>
             (let (regs1, out1) = endAll regs (op\<lparr>opCanceled := True\<rparr>)
              in \<lparr>groupAfter = \<lparr>registrations = regs1, lastOverTree = None\<rparr>,
                  groupEmitted = notify None, treeEmitted = out1\<rparr>))"

text \<open>What \<^verbatim>\<open>handleDragEnd\<close> leaves of a session when it only resets it.\<close>

definition endedSession :: "DndSession \<Rightarrow> DndSession" where
  "endedSession st = resetState (st\<lparr>hoverTimer := None, hoverTarget := None\<rparr>)"

section \<open>Lazy loading (hooks/use-tree-lazy.ts)\<close>

text \<open>
  \<^verbatim>\<open>triggerLoad\<close> starts an asynchronous load and returns; the promise settles in a later turn
  of the event loop. The model is a machine with two kinds of event: a trigger, which is the
  synchronous part of \<^verbatim>\<open>triggerLoad\<close>, and the settling of an outstanding promise, which runs
  the \<^verbatim>\<open>then\<close> handler (the promise resolved) or the \<^verbatim>\<open>catch\<close> handler (it was rejected) and then
  the \<^verbatim>\<open>finally\<close> handler. The loader and the callbacks \<^verbatim>\<open>insertChildren\<close>, \<^verbatim>\<open>expand\<close> and
  \<^verbatim>\<open>onLoadError\<close> are external: a call of one is written to the list \<open>lazyCalls\<close>, and they are
  taken not to throw. \<open>pendingLoads\<close> lists the promises that have not settled; only such a
  promise can settle, so \<open>settle\<close> is \<open>None\<close> for any other id. An error is the text of its
  message.
\<close>

record LazyOptions =
  hasLoadChildren :: bool
  hasOnLoadError :: bool

datatype 'a LazyCall =
  LoadChildren string
| InsertChildren string "'a TreeNodeNested list"
| Expand string
| OnLoadError string string

datatype 'a LoadOutcome = Resolved "'a TreeNodeNested list" | Rejected string

record 'a LazyState =
  inFlight :: "string set"
  loadingIds :: "string set"
  pendingLoads :: "string list"
  lazyCalls :: "'a LazyCall list"

definition idleLazy :: "'a LazyState" where
  "idleLazy = \<lparr>inFlight = {}, loadingIds = {}, pendingLoads = [], lazyCalls = []\<rparr>"

definition triggerLoad :: "LazyOptions \<Rightarrow> 'a FlatTreeNode \<Rightarrow> 'a LazyState \<Rightarrow> 'a LazyState" where
  "triggerLoad opts node st =
     (if \<not> hasLoadChildren opts then st
      else if \<not> isGroup node then st
      else if childrenLoaded node then st
      else if fid node \<in> inFlight st then st
      else st\<lparr>inFlight := insert (fid node) (inFlight st),
              loadingIds := insert (fid node) (loadingIds st),
              pendingLoads := pendingLoads st @ [fid node],
              lazyCalls := lazyCalls st @ [LoadChildren (fid node)]\<rparr>)"

definition settle ::
  "LazyOptions \<Rightarrow> string \<Rightarrow> 'a LoadOutcome \<Rightarrow> 'a LazyState \<Rightarrow> 'a LazyState option" where
  "settle opts x outcome st =
     (if x \<notin> set (pendingLoads st) then None
      else Some (st\<lparr>lazyCalls := lazyCalls st @
                        (case outcome of
                           Resolved children \<Rightarrow> [InsertChildren x children, Expand x]
                         | Rejected err \<Rightarrow> if hasOnLoadError opts then [OnLoadError x err] else []),
                    inFlight := inFlight st - {x},
                    loadingIds := loadingIds st - {x},
                    pendingLoads := remove1 x (pendingLoads st)\<rparr>))"

datatype 'a LazyEvent = Trigger "'a FlatTreeNode" | Settle string "'a LoadOutcome"

fun lazyRun :: "LazyOptions \<Rightarrow> 'a LazyState \<Rightarrow> 'a LazyEvent list \<Rightarrow> 'a LazyState option" where
  "lazyRun opts st [] = Some st"
| "lazyRun opts st (Trigger node # evs) = lazyRun opts (triggerLoad opts node st) evs"
| "lazyRun opts st (Settle x outcome # evs) =
     (case settle opts x outcome st of None \<Rightarrow> None | Some st' \<Rightarrow> lazyRun opts st' evs)"

text \<open>
  The invariant of the machine: the in-flight marker holds exactly the ids with an outstanding
  load, each once, and \<^verbatim>\<open>loadingIds\<close> holds the same ids.
\<close>

definition lazyInv :: "'a LazyState \<Rightarrow> bool" where
  "lazyInv st \<longleftrightarrow> distinct (pendingLoads st) \<and> inFlight st = set (pendingLoads st)
                 \<and> loadingIds st = inFlight st"

section \<open>Example trees\<close>

text \<open>
  Example trees carry no payload (\<open>unit\<close>). \<open>abTree\<close> is the group \<open>a\<close> with its child
  \<open>a1\<close>, followed by the root \<open>b\<close>.
\<close>

definition abTree :: "unit TreeNodeNested list" where
  "abTree = [TreeNodeNested ''a'' () (Some True) (Some [TreeNodeNested ''a1'' () None None]),
             TreeNodeNested ''b'' () None None]"

definition newNode :: "unit FlatTreeNode" where
  "newNode = \<lparr>fid = ''n'', fdata = (), isGroup = False, childrenLoaded = False,
              parentId = Some ''a'', depth = 1, index = 0\<rparr>"

text \<open>\<open>looseTree\<close>: the node \<open>a\<close> says \<^verbatim>\<open>isGroup: false\<close> and has the child \<open>c\<close>.\<close>

definition looseTree :: "unit TreeNodeNested list" where
  "looseTree = [TreeNodeNested ''a'' () (Some False) (Some [TreeNodeNested ''c'' () None None])]"

text \<open>\<open>deepTree\<close>: the group \<open>a\<close> holds the group \<open>a1\<close>, which holds the leaf \<open>x\<close>.\<close>

definition deepTree :: "unit TreeNodeNested list" where
  "deepTree = [TreeNodeNested ''a'' () (Some True) (Some
      [TreeNodeNested ''a1'' () (Some True) (Some [TreeNodeNested ''x'' () None None])])]"

text \<open>\<open>plainTree\<close>: the node \<open>a\<close> has the child \<open>c\<close> and no \<^verbatim>\<open>isGroup\<close> flag.\<close>

definition plainTree :: "unit TreeNodeNested list" where
  "plainTree = [TreeNodeNested ''a'' () None (Some [TreeNodeNested ''c'' () None None])]"

text \<open>
  \<open>lazyTree\<close>: the lazy group \<open>g\<close> (no \<^verbatim>\<open>children\<close> field) and the leaf \<open>x\<close>.
  \<open>lazyDrop\<close>: a flat array in which \<open>x\<close> is a child of the group \<open>g\<close> whose children are
  not loaded.
\<close>

definition lazyTree :: "unit TreeNodeNested list" where
  "lazyTree = [TreeNodeNested ''g'' () (Some True) None, TreeNodeNested ''x'' () None None]"

definition lazyDrop :: "unit FlatTreeNode list" where
  "lazyDrop =
     [\<lparr>fid = ''g'', fdata = (), isGroup = True, childrenLoaded = False, parentId = None,
       depth = 0, index = 0\<rparr>,
      \<lparr>fid = ''x'', fdata = (), isGroup = False, childrenLoaded = False, parentId = Some ''g'',
       depth = 1, index = 0\<rparr>]"

text \<open>
  Trees of one expanded group without children, with the empty string as id and with the id
  \<open>y\<close>; a tree's options with the defaults of \<^verbatim>\<open>TreeView\<close> and \<^verbatim>\<open>onItemsChange\<close> configured;
  the operation of dragging one node onto another without horizontal movement.
\<close>

definition emptyIdTree :: "unit TreeNodeNested list" where
  "emptyIdTree = [TreeNodeNested [] () (Some True) (Some [])]"

definition namedTree :: "unit TreeNodeNested list" where
  "namedTree = [TreeNodeNested ''y'' () (Some True) (Some [])]"

definition treeOptions ::
  "string \<Rightarrow> unit TreeNodeNested list \<Rightarrow> string set \<Rightarrow> unit DndOptions" where
  "treeOptions tid items expanded =
     \<lparr>treeId = tid, treeFlatNodes = flattenTree items None 0,
      treeVisibleNodes = getVisibleNodes (flattenTree items None 0) expanded,
      treeExpandedIds = expanded, treeSelectedIds = [], selectionMode = Single,
      indentationWidth = 20, canDrop = None, hasOnItemsChange = True, hasOnDragStart = False,
      hasOnDragEnd = False, expandOnDragHover = True\<rparr>"

definition dragOnto :: "string \<Rightarrow> string \<Rightarrow> DragOperation" where
  "dragOnto s t = \<lparr>opSource = Some s, opTarget = Some t, opTransformX = Some 0, opCanceled = False\<rparr>"

text \<open>The same with the pointer moved \<open>x\<close> pixels to the right.\<close>

definition dragBy :: "string \<Rightarrow> string \<Rightarrow> real \<Rightarrow> DragOperation" where
  "dragBy s t x = \<lparr>opSource = Some s, opTarget = Some t, opTransformX = Some x, opCanceled = False\<rparr>"

text \<open>
  Two registered trees: \<open>A\<close> over \<open>abTree\<close>, where \<open>a1\<close> is being dragged, and \<open>B\<close> over
  \<open>otherTree\<close>, whose session holds the projection of a hover over \<open>q\<close>.
\<close>

definition otherTree :: "unit TreeNodeNested list" where
  "otherTree = [TreeNodeNested ''p'' () (Some True) (Some [TreeNodeNested ''q'' () None None])]"

definition hoveringSession :: DndSession where
  "hoveringSession = idleSession\<lparr>overId := Some ''q'', dropPosition := Some After,
     projectedDepth := Some 1, projectedParentId := Some ''p'', dropPositionRef := Some After,
     projectedDepthRef := Some 1, projectedParentIdRef := Some ''p''\<rparr>"

definition twoTrees :: "unit DndGroup" where
  "twoTrees =
     \<lparr>registrations =
        [\<lparr>regOptions = treeOptions ''A'' abTree {''a''},
          regSession = idleSession\<lparr>activeId := Some ''a1''\<rparr>\<rparr>,
         \<lparr>regOptions = treeOptions ''B'' otherTree {''p''}, regSession = hoveringSession\<rparr>],
      lastOverTree = Some ''B''\<rparr>"

text \<open>Two lazy groups, and the options of a tree with a loader and an error callback.\<close>

definition lazyGroup :: "unit FlatTreeNode" where
  "lazyGroup = \<lparr>fid = ''g'', fdata = (), isGroup = True, childrenLoaded = False,
                 parentId = None, depth = 0, index = 0\<rparr>"

definition otherLazyGroup :: "unit FlatTreeNode" where
  "otherLazyGroup = \<lparr>fid = ''h'', fdata = (), isGroup = True, childrenLoaded = False,
                      parentId = None, depth = 0, index = 1\<rparr>"

definition withLoader :: LazyOptions where
  "withLoader = \<lparr>hasLoadChildren = True, hasOnLoadError = True\<rparr>"

section \<open>Sibling indices after a mutation\<close>

lemma reindexLoop_parentId: "map parentId (reindexLoop cnt xs) = map parentId xs"
  by (induction xs arbitrary: cnt) (simp_all add: Let_def)

lemma reindexLoop_siblings:
  "map index (filter (\<lambda>n. parentId n = p) (reindexLoop cnt xs)) =
     [(case cnt p of Some c \<Rightarrow> c | None \<Rightarrow> 0) ..<
      (case cnt p of Some c \<Rightarrow> c | None \<Rightarrow> 0) + length (filter (\<lambda>n. parentId n = p) xs)]"
proof (induction xs arbitrary: cnt)
  case Nil
  then show ?case by simp
next
  case (Cons node rest)
  define c0 where "c0 = (case cnt (parentId node) of Some c \<Rightarrow> c | None \<Rightarrow> 0)"
  define cnt' where "cnt' = cnt(parentId node \<mapsto> c0 + 1)"
  have step: "reindexLoop cnt (node # rest) = node\<lparr>index := c0\<rparr> # reindexLoop cnt' rest"
    by (simp add: Let_def c0_def cnt'_def)
  have IH: "map index (filter (\<lambda>n. parentId n = p) (reindexLoop cnt' rest)) =
     [(case cnt' p of Some c \<Rightarrow> c | None \<Rightarrow> 0) ..<
      (case cnt' p of Some c \<Rightarrow> c | None \<Rightarrow> 0) + length (filter (\<lambda>n. parentId n = p) rest)]"
    by (rule Cons.IH)
  show ?case
  proof (cases "parentId node = p")
    case True
    then have "(case cnt' p of Some c \<Rightarrow> c | None \<Rightarrow> 0) = Suc c0"
      by (simp add: cnt'_def)
    moreover have "(case cnt p of Some c \<Rightarrow> c | None \<Rightarrow> 0) = c0"
      using True by (simp add: c0_def)
    moreover have "[c0 ..< c0 + Suc k] = c0 # [Suc c0 ..< Suc c0 + k]" for k
      using upt_conv_Cons [of c0 "c0 + Suc k"] by simp
    ultimately show ?thesis
      unfolding step using True IH by (simp del: upt_Suc)
  next
    case False
    then have "(case cnt' p of Some c \<Rightarrow> c | None \<Rightarrow> 0) = (case cnt p of Some c \<Rightarrow> c | None \<Rightarrow> 0)"
      by (simp add: cnt'_def)
    then show ?thesis
      unfolding step using False IH by simp
  qed
qed

lemma reindexSiblings_siblings:
  "map index (filter (\<lambda>n. parentId n = p) (reindexSiblings xs)) =
     [0 ..< length (filter (\<lambda>n. parentId n = p) (reindexSiblings xs))]"
proof -
  have "length (filter (\<lambda>n. parentId n = p) (reindexSiblings xs)) =
        length (filter (\<lambda>n. parentId n = p) xs)"
    using arg_cong [OF reindexLoop_parentId [of Map.empty xs], of "\<lambda>ps. length (filter (\<lambda>q. q = p) ps)"]
    by (simp add: reindexSiblings_def filter_map o_def)
  then show ?thesis
    using reindexLoop_siblings [of p Map.empty xs] by (simp add: reindexSiblings_def)
qed

text \<open>
  C7. After \<^verbatim>\<open>removeNodes\<close> and after \<^verbatim>\<open>insertNodes\<close>, for every parent key \<open>p\<close> (\<^verbatim>\<open>null\<close>
  included), the \<^verbatim>\<open>index\<close> values of the nodes with that \<^verbatim>\<open>parentId\<close>, read in array order, are
  exactly \<open>0, 1, \<dots>, count - 1\<close>: contiguous, without gap or duplicate.
\<close>

theorem reindex_contiguity:
  "map index (filter (\<lambda>n. parentId n = p) (removeNodes flatNodes ids)) =
     [0 ..< length (filter (\<lambda>n. parentId n = p) (removeNodes flatNodes ids))]
   \<and> map index (filter (\<lambda>n. parentId n = p)
        (insertNodes flatNodes nodesToInsert targetParentId targetIndex)) =
     [0 ..< length (filter (\<lambda>n. parentId n = p)
        (insertNodes flatNodes nodesToInsert targetParentId targetIndex))]"
  unfolding removeNodes_def insertNodes_def Let_def
  using reindexSiblings_siblings by blast

section \<open>Where \<^verbatim>\<open>insertNodes\<close> splices\<close>

lemma findInsertAt_Some:
  "findInsertAt xs p k i0 sc = Some i \<Longrightarrow>
     i0 \<le> i \<and> i - i0 < length xs \<and> parentId (xs ! (i - i0)) = p
     \<and> sc + int (length (filter (\<lambda>n. parentId n = p) (take (i - i0) xs))) = k"
proof (induction xs arbitrary: i0 sc)
  case Nil
  then show ?case by simp
next
  case (Cons node rest)
  show ?case
  proof (cases "parentId node = p \<and> sc = k")
    case True
    with Cons.prems show ?thesis by simp
  next
    case False
    define sc' where "sc' = (if parentId node = p then sc + 1 else sc)"
    from False Cons.prems have rec: "findInsertAt rest p k (Suc i0) sc' = Some i"
      by (auto simp: sc'_def split: if_splits)
    from Cons.IH [OF rec] have IH: "Suc i0 \<le> i" "i - Suc i0 < length rest"
      "parentId (rest ! (i - Suc i0)) = p"
      "sc' + int (length (filter (\<lambda>n. parentId n = p) (take (i - Suc i0) rest))) = k"
      by simp_all
    from IH(1) have idx: "i - i0 = Suc (i - Suc i0)" by simp
    show ?thesis
      unfolding idx using IH by (auto simp: sc'_def)
  qed
qed

lemma findInsertAt_None:
  "findInsertAt xs p k i0 sc = None \<Longrightarrow>
     \<not> (sc \<le> k \<and> k < sc + int (length (filter (\<lambda>n. parentId n = p) xs)))"
proof (induction xs arbitrary: i0 sc)
  case Nil
  then show ?case by simp
next
  case (Cons node rest)
  show ?case
  proof (cases "parentId node = p")
    case True
    with Cons.prems have ne: "sc \<noteq> k" and rec: "findInsertAt rest p k (Suc i0) (sc + 1) = None"
      by (auto split: if_splits)
    from Cons.IH [OF rec] ne True show ?thesis by auto
  next
    case False
    with Cons.prems have rec: "findInsertAt rest p k (Suc i0) sc = None" by simp
    from Cons.IH [OF rec] False show ?thesis by simp
  qed
qed

lemma findInsertAt_Some_bound:
  "findInsertAt xs p k i0 sc = Some i \<Longrightarrow>
     sc \<le> k \<and> k < sc + int (length (filter (\<lambda>n. parentId n = p) xs))"
proof (induction xs arbitrary: i0 sc)
  case Nil
  then show ?case by simp
next
  case (Cons node rest)
  show ?case
  proof (cases "parentId node = p \<and> sc = k")
    case True
    then show ?thesis by simp
  next
    case False
    define sc' where "sc' = (if parentId node = p then sc + 1 else sc)"
    from False Cons.prems have rec: "findInsertAt rest p k (Suc i0) sc' = Some i"
      by (auto simp: sc'_def split: if_splits)
    from Cons.IH [OF rec] show ?thesis by (auto simp: sc'_def split: if_splits)
  qed
qed

text \<open>
  C5, as the claim states it, fails. In \<open>flattenTree abTree\<close> the parent \<open>a\<close> has one child, so
  target index 1 is at or past the child count. The claim puts the new node at the end of the
  children of \<open>a\<close>, before the root \<open>b\<close>; \<^verbatim>\<open>insertNodes\<close> puts it at the end of the array.
\<close>

theorem insertNodes_end_counterexample:
  "map fid (insertNodes (flattenTree abTree None 0) [newNode] (Some ''a'') 1)
     = [''a'', ''a1'', ''b'', ''n'']
   \<and> map fid (specInsertAt (flattenTree abTree None 0) [newNode] (Some ''a'') 1)
     = [''a'', ''a1'', ''n'', ''b'']
   \<and> insertNodes (flattenTree abTree None 0) [newNode] (Some ''a'') 1
     \<noteq> specInsertAt (flattenTree abTree None 0) [newNode] (Some ''a'') 1"
  by (simp add: insertNodes_def specInsertAt_def insertPosition_def specInsertPosition_def
      endOfChildren_def flattenTree_def abTree_def newNode_def reindexSiblings_def Let_def)

text \<open>
  C5, amended. \<^verbatim>\<open>insertNodes\<close> returns the array with the new nodes spliced in at a position
  \<open>insertAt\<close> and the sibling indices recomputed by \<^verbatim>\<open>reindexSiblings\<close>. When the target parent
  has a child number \<^verbatim>\<open>targetIndex\<close> (counting from 0), \<open>insertAt\<close> is the position of that
  child: the node there has the target parent and exactly \<^verbatim>\<open>targetIndex\<close> children of the
  target parent lie before it. Otherwise (the index is at or past the child count, or negative)
  \<open>insertAt\<close> is the length of the array: the new nodes go to the end of the whole array.
\<close>

theorem insertNodes_splice:
  fixes flatNodes :: "'a FlatTreeNode list"
  defines "childCount p \<equiv> int (length (filter (\<lambda>n. parentId n = p) flatNodes))"
  defines "insertAt p k \<equiv> insertPosition flatNodes p k"
  shows "insertNodes flatNodes nodesToInsert targetParentId targetIndex =
           reindexSiblings (take (insertAt targetParentId targetIndex) flatNodes @ nodesToInsert
             @ drop (insertAt targetParentId targetIndex) flatNodes)
         \<and> (0 \<le> targetIndex \<and> targetIndex < childCount targetParentId \<longrightarrow>
              insertAt targetParentId targetIndex < length flatNodes
              \<and> parentId (flatNodes ! insertAt targetParentId targetIndex) = targetParentId
              \<and> int (length (filter (\<lambda>n. parentId n = targetParentId)
                    (take (insertAt targetParentId targetIndex) flatNodes))) = targetIndex)
         \<and> (\<not> (0 \<le> targetIndex \<and> targetIndex < childCount targetParentId) \<longrightarrow>
              insertAt targetParentId targetIndex = length flatNodes)"
proof (cases "findInsertAt flatNodes targetParentId targetIndex 0 0")
  case None
  from findInsertAt_None [OF None] show ?thesis
    using None by (simp add: insertNodes_def insertPosition_def childCount_def insertAt_def)
next
  case (Some i)
  from findInsertAt_Some [OF Some] findInsertAt_Some_bound [OF Some] show ?thesis
    using Some by (simp add: insertNodes_def insertPosition_def childCount_def insertAt_def)
qed

theorem insertNodes_splice_witness:
  "insertNodes (flattenTree abTree None 0) [newNode] None 1 =
     reindexSiblings (take 2 (flattenTree abTree None 0) @ [newNode]
       @ drop 2 (flattenTree abTree None 0))
   \<and> insertPosition (flattenTree abTree None 0) None 1 = 2
   \<and> insertPosition (flattenTree abTree None 0) None 2 = 3"
  using insertNodes_splice [where flatNodes = "flattenTree abTree None 0" and targetIndex = 1
      and targetParentId = None and nodesToInsert = "[newNode]"]
    insertNodes_splice [where flatNodes = "flattenTree abTree None 0" and targetIndex = 2
      and targetParentId = None and nodesToInsert = "[newNode]"]
  by (simp add: flattenTree_def abTree_def insertPosition_def)

section \<open>Facts about ancestors in well-formed arrays\<close>

lemma parentsFirst_append:
  "parentsFirst S (pre @ xs) = (parentsFirst S pre \<and> parentsFirst (S \<union> fid ` set pre) xs)"
  by (induction pre arbitrary: S) (auto simp: insert_commute Un_commute)

lemma parentsFirst_distinct:
  "parentsFirst S xs \<Longrightarrow> distinct (map fid xs) \<and> fid ` set xs \<inter> S = {}"
  by (induction xs arbitrary: S) auto

lemma parentsFirst_mid:
  assumes "parentsFirst {} (pre @ n # rest)"
  shows "fid n \<notin> fid ` set pre" and "\<And>p. parentId n = Some p \<Longrightarrow> p \<in> fid ` set pre"
    and "distinct (map fid (pre @ n # rest))"
  using assms parentsFirst_distinct [OF assms]
  by (auto simp: parentsFirst_append split: option.splits)

lemma fid_inj:
  "distinct (map fid flat) \<Longrightarrow> n \<in> set flat \<Longrightarrow> m \<in> set flat \<Longrightarrow> fid n = fid m \<Longrightarrow> n = m"
  by (meson distinct_map inj_onD)

lemma isAncestor_inv:
  assumes "distinct (map fid flat)" and "n \<in> set flat"
  shows "isAncestor flat a (fid n) \<longleftrightarrow>
           (\<exists>p. parentId n = Some p \<and> (a = p \<or> isAncestor flat a p))"
proof
  assume "isAncestor flat a (fid n)"
  then show "\<exists>p. parentId n = Some p \<and> (a = p \<or> isAncestor flat a p)"
  proof (cases rule: isAncestor.cases)
    case (parent n')
    with assms have "n' = n" by (metis fid_inj)
    with parent show ?thesis by simp
  next
    case (above n' p)
    with assms have "n' = n" by (metis fid_inj)
    with above show ?thesis by auto
  qed
next
  assume "\<exists>p. parentId n = Some p \<and> (a = p \<or> isAncestor flat a p)"
  with assms(2) show "isAncestor flat a (fid n)"
    by (auto intro: isAncestor.intros)
qed

lemma isAncestor_is_node: "isAncestor flat a c \<Longrightarrow> c \<in> fid ` set flat"
  by (auto elim: isAncestor.cases)

lemma isAncestor_earlier:
  assumes "isAncestor flat a c" and "parentsFirst {} flat"
  shows "flat = pre @ n # rest \<Longrightarrow> fid n = c \<Longrightarrow> a \<in> fid ` set pre"
  using assms(1)
proof (induction arbitrary: pre n rest rule: isAncestor.induct)
  case (parent n' p)
  have d: "distinct (map fid flat)" using parentsFirst_distinct [OF assms(2)] by simp
  have "n \<in> set flat" using parent.prems by simp
  with d parent have "n' = n" by (metis fid_inj)
  moreover have "parentsFirst {} (pre @ n # rest)" using assms(2) parent.prems by simp
  ultimately show ?case using parent.hyps parentsFirst_mid(2) by blast
next
  case (above n' p a)
  have d: "distinct (map fid flat)" using parentsFirst_distinct [OF assms(2)] by simp
  have "n \<in> set flat" using above.prems by simp
  with d above have eq: "n' = n" by (metis fid_inj)
  have "parentsFirst {} (pre @ n # rest)" using assms(2) above.prems by simp
  with eq above.hyps have "p \<in> fid ` set pre" using parentsFirst_mid(2) by blast
  then obtain m where m: "m \<in> set pre" "fid m = p" by auto
  then obtain pre1 pre2 where sp: "pre = pre1 @ m # pre2" by (meson split_list)
  with above.prems have "flat = pre1 @ m # (pre2 @ n # rest)" by simp
  from above.IH [OF this m(2)] sp show ?case by auto
qed

lemma isAncestor_irrefl:
  assumes "parentsFirst {} flat"
  shows "\<not> isAncestor flat c c"
proof
  assume a: "isAncestor flat c c"
  then obtain n where n: "n \<in> set flat" "fid n = c" using isAncestor_is_node by fastforce
  then obtain pre rest where sp: "flat = pre @ n # rest" by (meson split_list)
  from isAncestor_earlier [OF a assms sp n(2)] parentsFirst_mid(1) [of pre n rest] assms sp n
  show False by simp
qed

lemma fid_flattenLoop: "map fid (flattenLoop i nodes p d) = allIds nodes"
  by (induction i nodes p d rule: flattenLoop.induct) simp_all

lemma flattenLoop_parentsFirst:
  "distinct (allIds nodes) \<Longrightarrow> set (allIds nodes) \<inter> S = {} \<Longrightarrow>
   (case p of Some q \<Rightarrow> q \<in> S | None \<Rightarrow> True) \<Longrightarrow>
   parentsFirst S (flattenLoop i nodes p d)"
proof (induction i nodes p d arbitrary: S rule: flattenLoop.induct)
  case (1 i p d)
  then show ?case by simp
next
  case (2 i x dat g rest p d)
  have "parentsFirst (insert x S) (flattenLoop (Suc i) rest p d)"
    using "2.prems" by (intro "2.IH") (auto split: option.splits)
  with "2.prems" show ?case by simp
next
  case (3 i x dat g cs rest p d)
  have a: "parentsFirst (insert x S) (flattenLoop 0 cs (Some x) (d + 1))"
    using "3.prems" by (intro "3.IH"(1)) auto
  have "fid ` set (flattenLoop 0 cs (Some x) (d + 1)) = set (allIds cs)"
    using fid_flattenLoop [of 0 cs "Some x" "d + 1"] by (metis set_map)
  moreover have "parentsFirst (insert x S \<union> set (allIds cs)) (flattenLoop (Suc i) rest p d)"
    using "3.prems" by (intro "3.IH"(2)) (auto split: option.splits)
  ultimately show ?case
    using a "3.prems" by (simp add: parentsFirst_append)
qed

lemma flattenTree_parentsFirst:
  "distinct (allIds nodes) \<Longrightarrow> parentsFirst {} (flattenTree nodes None 0)"
  unfolding flattenTree_def by (rule flattenLoop_parentsFirst) simp_all

section \<open>Which nodes are visible\<close>

lemma visibleLoop_acc:
  "visibleLoop xs E acc C = acc @ visibleLoop xs E [] C"
proof (induction xs arbitrary: acc C)
  case Nil
  then show ?case by simp
next
  case (Cons n rest)
  show ?case
    using Cons.IH [of "acc @ [n]"] Cons.IH [of "[n]"] Cons.IH [of acc]
    by simp
qed

lemma collapsedAbove_step:
  assumes "distinct (map fid flat)" and "n \<in> set flat"
  shows "collapsedAbove flat E (fid n) \<longleftrightarrow>
           (\<exists>p. parentId n = Some p \<and>
              ((\<exists>a \<in> set flat. fid a = p \<and> isGroup a \<and> p \<notin> E) \<or> collapsedAbove flat E p))"
  unfolding collapsedAbove_def isAncestor_inv [OF assms] by blast

lemma visibleLoop_inv:
  assumes "parentsFirst {} flat"
  shows "flat = pre @ xs \<Longrightarrow> C = {c \<in> fid ` set pre. blockedId flat E c} \<Longrightarrow>
         visibleLoop xs E [] C = filter (\<lambda>n. \<not> collapsedAbove flat E (fid n)) xs"
proof (induction xs arbitrary: pre C)
  case Nil
  then show ?case by simp
next
  case (Cons n rest)
  have pf: "parentsFirst {} (pre @ n # rest)" using assms Cons.prems by simp
  have d: "distinct (map fid flat)" using parentsFirst_distinct [OF assms] by simp
  have nin: "n \<in> set flat" using Cons.prems by simp
  have fresh: "fid n \<notin> fid ` set pre" using parentsFirst_mid(1) [OF pf] .
  have test: "(case parentId n of Some p \<Rightarrow> p \<in> C | None \<Rightarrow> False) \<longleftrightarrow>
                collapsedAbove flat E (fid n)"
  proof (cases "parentId n")
    case None
    then show ?thesis using collapsedAbove_step [OF d nin, of E] by simp
  next
    case (Some p)
    then have "p \<in> fid ` set pre" using parentsFirst_mid(2) [OF pf] by simp
    then have "p \<in> C \<longleftrightarrow> blockedId flat E p" using Cons.prems by simp
    then show ?thesis
      using Some collapsedAbove_step [OF d nin, of E] by (auto simp: blockedId_def)
  qed
  have own: "blockedId flat E (fid n) \<longleftrightarrow>
               collapsedAbove flat E (fid n) \<or> (isGroup n \<and> fid n \<notin> E)"
    unfolding blockedId_def using fid_inj [OF d _ nin] nin by blast
  define C' where "C' = (if blockedId flat E (fid n) then insert (fid n) C else C)"
  have C': "C' = {c \<in> fid ` set (pre @ [n]). blockedId flat E c}"
    using Cons.prems(2) by (auto simp: C'_def)
  have sp: "flat = (pre @ [n]) @ rest" using Cons.prems by simp
  have IH: "visibleLoop rest E [] C' = filter (\<lambda>n. \<not> collapsedAbove flat E (fid n)) rest"
    by (rule Cons.IH [OF sp C'])
  show ?case
  proof (cases "collapsedAbove flat E (fid n)")
    case True
    then have "C' = insert (fid n) C" using own by (simp add: C'_def)
    with True test IH show ?thesis by simp
  next
    case False
    then have "C' = (if isGroup n \<and> fid n \<notin> E then insert (fid n) C else C)"
      using own by (simp add: C'_def)
    with False test IH show ?thesis
      using visibleLoop_acc [of rest E "[n]"] by simp
  qed
qed

lemma getVisibleNodes_filter:
  assumes "parentsFirst {} flat"
  shows "getVisibleNodes flat E = filter (\<lambda>n. \<not> collapsedAbove flat E (fid n)) flat"
  unfolding getVisibleNodes_def
  using visibleLoop_inv [OF assms, of "[]" flat "{}" E] by simp

lemma visibleLoop_subseq: "subseq (visibleLoop xs E [] C) xs"
proof (induction xs arbitrary: C)
  case Nil
  then show ?case by simp
next
  case (Cons n rest)
  show ?case
    using Cons.IH visibleLoop_acc [of rest E "[n]"] by (auto intro: subseq_Cons2)
qed

text \<open>
  C3, as the claim states it, fails. In \<open>flattenTree looseTree\<close> the node \<open>c\<close> has the ancestor
  \<open>a\<close>, which is not a group (\<^verbatim>\<open>isGroup: false\<close> wins over its having a child). With the empty
  expansion set the ancestor \<open>a\<close> is not expanded, and \<open>c\<close> is visible all the same.
\<close>

theorem visible_all_ancestors_counterexample:
  "map fid (getVisibleNodes (flattenTree looseTree None 0) {}) = [''a'', ''c'']
   \<and> isAncestor (flattenTree looseTree None 0) ''a'' ''c''
   \<and> ''a'' \<notin> ({} :: string set)
   \<and> parentsFirst {} (flattenTree looseTree None 0)"
proof -
  have "isAncestor (flattenTree looseTree None 0) ''a''
          (fid (\<lparr>fid = ''c'', fdata = (), isGroup = False, childrenLoaded = False,
                 parentId = Some ''a'', depth = 1, index = 0\<rparr> :: unit FlatTreeNode))"
    by (rule isAncestor.parent) (simp_all add: flattenTree_def looseTree_def)
  then show ?thesis
    by (simp add: getVisibleNodes_def flattenTree_def looseTree_def)
qed

text \<open>
  C3, amended. For every flat array with unique ids in which parents come before their children
  (every pre-order array with valid parent references is one) and every expansion set,
  \<^verbatim>\<open>getVisibleNodes\<close> returns a subsequence of the array, and a node of the array is in the result
  if and only if every ancestor of it that is a group is in the expansion set. An ancestor that is
  not a group never hides its descendants.
\<close>

theorem visible_iff_group_ancestors_expanded:
  assumes "parentsFirst {} flatNodes"
  shows "subseq (getVisibleNodes flatNodes expandedIds) flatNodes
         \<and> (\<forall>n \<in> set flatNodes.
               n \<in> set (getVisibleNodes flatNodes expandedIds) \<longleftrightarrow>
               (\<forall>a \<in> set flatNodes.
                  isAncestor flatNodes (fid a) (fid n) \<and> isGroup a \<longrightarrow> fid a \<in> expandedIds))"
proof -
  have "subseq (getVisibleNodes flatNodes expandedIds) flatNodes"
    unfolding getVisibleNodes_def by (rule visibleLoop_subseq)
  moreover have "\<forall>n \<in> set flatNodes.
               n \<in> set (getVisibleNodes flatNodes expandedIds) \<longleftrightarrow>
               (\<forall>a \<in> set flatNodes.
                  isAncestor flatNodes (fid a) (fid n) \<and> isGroup a \<longrightarrow> fid a \<in> expandedIds)"
    unfolding getVisibleNodes_filter [OF assms] collapsedAbove_def by auto
  ultimately show ?thesis by simp
qed

theorem visible_iff_group_ancestors_expanded_witness:
  "parentsFirst {} (flattenTree abTree None 0)
   \<and> subseq (getVisibleNodes (flattenTree abTree None 0) {''b''}) (flattenTree abTree None 0)
   \<and> \<lparr>fid = ''a1'', fdata = (), isGroup = False, childrenLoaded = False,
        parentId = Some ''a'', depth = 1, index = 0\<rparr>
       \<notin> set (getVisibleNodes (flattenTree abTree None 0) {''b''})
   \<and> map fid (getVisibleNodes (flattenTree abTree None 0) {''b''}) = [''a'', ''b'']"
proof -
  define a1 :: "unit FlatTreeNode" where
    "a1 = \<lparr>fid = ''a1'', fdata = (), isGroup = False, childrenLoaded = False,
            parentId = Some ''a'', depth = 1, index = 0\<rparr>"
  define a :: "unit FlatTreeNode" where
    "a = \<lparr>fid = ''a'', fdata = (), isGroup = True, childrenLoaded = True,
           parentId = None, depth = 0, index = 0\<rparr>"
  have mem: "a1 \<in> set (flattenTree abTree None 0)" "a \<in> set (flattenTree abTree None 0)"
    by (simp_all add: flattenTree_def abTree_def a1_def a_def)
  have pf: "parentsFirst {} (flattenTree abTree None 0)"
    by (simp add: flattenTree_def abTree_def)
  note law = visible_iff_group_ancestors_expanded [OF pf, of "{''b''}"]
  have "isAncestor (flattenTree abTree None 0) ''a'' (fid a1)"
    by (rule isAncestor.parent [OF mem(1)]) (simp add: a1_def)
  then have "isAncestor (flattenTree abTree None 0) (fid a) (fid a1) \<and> isGroup a
             \<and> fid a \<notin> {''b''}"
    by (simp add: a_def)
  with law mem have "a1 \<notin> set (getVisibleNodes (flattenTree abTree None 0) {''b''})"
    by blast
  moreover have "map fid (getVisibleNodes (flattenTree abTree None 0) {''b''}) = [''a'', ''b'']"
    by (simp add: getVisibleNodes_def flattenTree_def abTree_def)
  ultimately show ?thesis using pf law unfolding a1_def by blast
qed

section \<open>Collapsing a node\<close>

lemma descendantLoop_acc:
  "descendantLoop xs acc ps = acc @ descendantLoop xs [] ps"
proof (induction xs arbitrary: acc ps)
  case Nil
  then show ?case by simp
next
  case (Cons n rest)
  show ?case
    using Cons.IH [of "acc @ [fid n]"] Cons.IH [of "[fid n]"] Cons.IH [of acc]
    by simp
qed

lemma descendantLoop_inv:
  assumes "parentsFirst {} flat"
  shows "flat = pre @ xs \<Longrightarrow> ps = insert r {c \<in> fid ` set pre. isAncestor flat r c} \<Longrightarrow>
         descendantLoop xs [] ps = map fid (filter (\<lambda>n. isAncestor flat r (fid n)) xs)"
proof (induction xs arbitrary: pre ps)
  case Nil
  then show ?case by simp
next
  case (Cons n rest)
  have pf: "parentsFirst {} (pre @ n # rest)" using assms Cons.prems by simp
  have d: "distinct (map fid flat)" using parentsFirst_distinct [OF assms] by simp
  have nin: "n \<in> set flat" using Cons.prems by simp
  have test: "(case parentId n of Some p \<Rightarrow> p \<in> ps | None \<Rightarrow> False) \<longleftrightarrow>
                isAncestor flat r (fid n)"
  proof (cases "parentId n")
    case None
    then show ?thesis using isAncestor_inv [OF d nin, of r] by simp
  next
    case (Some p)
    then have "p \<in> fid ` set pre" using parentsFirst_mid(2) [OF pf] by simp
    then have "p \<in> ps \<longleftrightarrow> p = r \<or> isAncestor flat r p" using Cons.prems by simp
    then show ?thesis
      using Some isAncestor_inv [OF d nin, of r] by auto
  qed
  define ps' where "ps' = (if isAncestor flat r (fid n) then insert (fid n) ps else ps)"
  have ps': "ps' = insert r {c \<in> fid ` set (pre @ [n]). isAncestor flat r c}"
    using Cons.prems(2) by (auto simp: ps'_def)
  have sp: "flat = (pre @ [n]) @ rest" using Cons.prems by simp
  have IH: "descendantLoop rest [] ps' = map fid (filter (\<lambda>n. isAncestor flat r (fid n)) rest)"
    by (rule Cons.IH [OF sp ps'])
  show ?case
  proof (cases "isAncestor flat r (fid n)")
    case True
    with test IH show ?thesis
      using descendantLoop_acc [of rest "[fid n]"] by (simp add: ps'_def)
  next
    case False
    with test IH show ?thesis by (simp add: ps'_def)
  qed
qed

lemma getDescendantIds_eq:
  assumes "parentsFirst {} flat"
  shows "getDescendantIds flat r = map fid (filter (\<lambda>n. isAncestor flat r (fid n)) flat)"
  unfolding getDescendantIds_def
  using descendantLoop_inv [OF assms, of "[]" flat "{r}" r] by simp

lemma set_getDescendantIds:
  assumes "parentsFirst {} flat"
  shows "set (getDescendantIds flat r) = {d. isAncestor flat r d}"
  unfolding getDescendantIds_eq [OF assms] using isAncestor_is_node by fastforce

text \<open>
  C6, as the claim states it, fails. \<^verbatim>\<open>collapse\<close> returns the expansion set unchanged when the
  node is not in it. In \<open>flattenTree deepTree\<close> with \<open>a1\<close> expanded and \<open>a\<close> not, collapsing
  \<open>a\<close> keeps its descendant \<open>a1\<close> in the set, and expanding \<open>a\<close> afterwards shows \<open>a1\<close>
  expanded.
\<close>

theorem collapse_guard_counterexample:
  "getDescendantIds (flattenTree deepTree None 0) ''a'' = [''a1'', ''x'']
   \<and> collapse (flattenTree deepTree None 0) ''a'' {''a1''} = {''a1''}
   \<and> collapse (flattenTree deepTree None 0) ''a'' {''a1''}
       \<noteq> {''a1''} - {''a''} - set (getDescendantIds (flattenTree deepTree None 0) ''a'')
   \<and> ''a1'' \<in> expand ''a'' (collapse (flattenTree deepTree None 0) ''a'' {''a1''})"
  by (simp add: getDescendantIds_def collapse_def expand_def flattenTree_def deepTree_def)

text \<open>
  C6, amended. Over a flat array with unique ids and parents before children: when the node is in
  the expansion set, \<^verbatim>\<open>collapse\<close> and the collapsing branch of \<^verbatim>\<open>toggleExpand\<close> return the set
  without the node and without every descendant id of the node, so expanding the node again leaves
  no descendant in the set; when the node is not in the expansion set, \<^verbatim>\<open>collapse\<close> returns the
  set unchanged.
\<close>

theorem collapse_removes_descendants:
  assumes "parentsFirst {} flatNodes"
  shows "(x \<in> expandedIds \<longrightarrow>
            collapse flatNodes x expandedIds = expandedIds - insert x {d. isAncestor flatNodes x d}
          \<and> toggleExpand flatNodes x expandedIds = expandedIds - insert x {d. isAncestor flatNodes x d}
          \<and> (\<forall>d. isAncestor flatNodes x d \<longrightarrow> d \<notin> expand x (collapse flatNodes x expandedIds)))
         \<and> (x \<notin> expandedIds \<longrightarrow> collapse flatNodes x expandedIds = expandedIds)"
  using isAncestor_irrefl [OF assms, of x]
  by (auto simp: collapse_def toggleExpand_def expand_def set_getDescendantIds [OF assms])

theorem collapse_removes_descendants_witness:
  "parentsFirst {} (flattenTree deepTree None 0)
   \<and> collapse (flattenTree deepTree None 0) ''a'' {''a'', ''a1'', ''q''} = {''q''}
   \<and> collapse (flattenTree deepTree None 0) ''a'' {''a'', ''a1'', ''q''}
       = {''a'', ''a1'', ''q''} - insert ''a'' {d. isAncestor (flattenTree deepTree None 0) ''a'' d}
   \<and> collapse (flattenTree deepTree None 0) ''x'' {''a''} = {''a''}"
proof -
  have pf: "parentsFirst {} (flattenTree deepTree None 0)"
    by (simp add: flattenTree_def deepTree_def)
  have "collapse (flattenTree deepTree None 0) ''a'' {''a'', ''a1'', ''q''} = {''q''}"
    by (simp add: getDescendantIds_def collapse_def flattenTree_def deepTree_def)
  moreover have "collapse (flattenTree deepTree None 0) ''x'' {''a''} = {''a''}"
    by (simp add: collapse_def)
  ultimately show ?thesis
    using pf collapse_removes_descendants [OF pf, of "''a''" "{''a'', ''a1'', ''q''}"]
    by simp
qed

section \<open>The projected depth and parent\<close>







section \<open>The round trip through the flat array\<close>

lemma nodeMapLoop_other: "x \<notin> fid ` set xs \<Longrightarrow> nodeMapLoop xs m x = m x"
  by (induction xs arbitrary: m) auto

lemma nodeMapLoop_distinct:
  "distinct (map fid xs) \<Longrightarrow> f \<in> set xs \<Longrightarrow> nodeMapLoop xs m (fid f) = Some f"
proof (induction xs arbitrary: m)
  case Nil
  then show ?case by simp
next
  case (Cons g rest)
  show ?case
  proof (cases "f = g")
    case True
    with Cons.prems have "fid f \<notin> fid ` set rest" by auto
    with True show ?thesis by (simp add: nodeMapLoop_other)
  next
    case False
    with Cons show ?thesis by auto
  qed
qed

lemma nodeMapLoop_dom: "nodeMapLoop xs Map.empty x = Some f \<Longrightarrow> f \<in> set xs \<and> fid f = x"
proof -
  have "nodeMapLoop xs m x = Some f \<Longrightarrow> (f \<in> set xs \<and> fid f = x) \<or> m x = Some f" for m
  proof (induction xs arbitrary: m)
    case Nil
    then show ?case by simp
  next
    case (Cons g rest)
    from Cons.prems have "nodeMapLoop rest (m(fid g \<mapsto> g)) x = Some f" by simp
    from Cons.IH [OF this] have "(f \<in> set rest \<and> fid f = x) \<or> (m(fid g \<mapsto> g)) x = Some f" .
    then show ?case by (auto split: if_splits)
  qed
  from this [of Map.empty] show "nodeMapLoop xs Map.empty x = Some f \<Longrightarrow> f \<in> set xs \<and> fid f = x"
    by simp
qed

lemma linkLoop_step:
  assumes pf: "parentsFirst {} (pre @ f # rest)"
    and nm: "nm = nodeMapLoop (pre @ f # rest) Map.empty"
  shows "linkLoop nm (f # rest) (rootsOf pre, arraysOf nm pre) =
         linkLoop nm rest (rootsOf (pre @ [f]), arraysOf nm (pre @ [f]))"
proof -
  have d: "distinct (map fid (pre @ f # rest))" using parentsFirst_mid(3) [OF pf] .
  have nmf: "nm (fid f) = Some f" unfolding nm by (rule nodeMapLoop_distinct [OF d]) simp
  have nochild: "\<not> (\<exists>c \<in> set pre. parentId c = Some (fid f))"
  proof
    assume "\<exists>c \<in> set pre. parentId c = Some (fid f)"
    then obtain c where c: "c \<in> set pre" "parentId c = Some (fid f)" by blast
    then obtain p1 p2 where sp: "pre = p1 @ c # p2" by (meson split_list)
    with pf have "parentsFirst {} (p1 @ c # (p2 @ f # rest))" by simp
    from parentsFirst_mid(2) [OF this c(2)] have "fid f \<in> fid ` set pre" using sp by auto
    with parentsFirst_mid(1) [OF pf] show False by simp
  qed
  have own: "(case arraysOf nm pre (fid f) of Some cs \<Rightarrow> Some (fid f) | None \<Rightarrow> None) =
             (if childrenLoaded f then Some (fid f) else None)"
    using nochild by (simp add: arraysOf_def nmf)
  show ?thesis
  proof (cases "parentId f")
    case None
    have "arraysOf nm (pre @ [f]) = arraysOf nm pre"
      by (rule ext) (simp add: arraysOf_def None split: option.splits)
    then show ?thesis
      using None nmf own by (simp add: Let_def rootsOf_def cleanRow_def)
  next
    case (Some p)
    from parentsFirst_mid(2) [OF pf Some] obtain fp where fp: "fp \<in> set pre" "fid fp = p" by auto
    then have nmp: "nm p = Some fp"
      unfolding nm using nodeMapLoop_distinct [OF d, of fp] by simp
    have "(arraysOf nm pre)(p \<mapsto> (case arraysOf nm pre p of Some cs \<Rightarrow> cs | None \<Rightarrow> [])
            @ [cleanRow f]) = arraysOf nm (pre @ [f])"
    proof (rule ext)
      fix y
      show "((arraysOf nm pre)(p \<mapsto> (case arraysOf nm pre p of Some cs \<Rightarrow> cs | None \<Rightarrow> [])
            @ [cleanRow f])) y = arraysOf nm (pre @ [f]) y"
      proof (cases "y = p")
        case True
        have "filter (\<lambda>f. parentId f = Some p) pre = []" if "\<not> (\<exists>c \<in> set pre. parentId c = Some p)"
          using that by (simp add: filter_empty_conv)
        then show ?thesis
          using True Some nmp by (auto simp: arraysOf_def)
      next
        case False
        then show ?thesis
          using Some by (auto simp: arraysOf_def split: option.splits)
      qed
    qed
    moreover have "rootsOf (pre @ [f]) = rootsOf pre"
      using Some by (simp add: rootsOf_def)
    ultimately show ?thesis
      using Some nmf nmp own by (simp add: Let_def cleanRow_def)
  qed
qed

lemma linkLoop_inv:
  assumes "parentsFirst {} flat" and "nm = nodeMapLoop flat Map.empty"
  shows "flat = pre @ rest \<Longrightarrow>
         linkLoop nm rest (rootsOf pre, arraysOf nm pre) = (rootsOf flat, arraysOf nm flat)"
proof (induction rest arbitrary: pre)
  case Nil
  then show ?case by simp
next
  case (Cons f rest)
  have "linkLoop nm (f # rest) (rootsOf pre, arraysOf nm pre) =
        linkLoop nm rest (rootsOf (pre @ [f]), arraysOf nm (pre @ [f]))"
    using assms Cons.prems by (intro linkLoop_step) simp_all
  also have "\<dots> = (rootsOf flat, arraysOf nm flat)"
    using Cons.prems by (intro Cons.IH) simp
  finally show ?case .
qed

lemma buildTree_parentsFirst:
  assumes "parentsFirst {} flat"
  shows "buildTree flat =
           (rootsOf flat, arraysOf (nodeMapLoop flat Map.empty) flat)"
proof -
  define nm where "nm = nodeMapLoop flat Map.empty"
  have "initialArrays nm = arraysOf nm []"
    by (rule ext) (simp add: initialArrays_def arraysOf_def split: option.splits)
  then show ?thesis
    unfolding buildTree_def Let_def nm_def [symmetric]
    using linkLoop_inv [OF assms nm_def, of "[]" flat] by (simp add: rootsOf_def)
qed

lemma kidsOf_flattenLoop:
  "map cleanRow (filter (\<lambda>f. parentId f = q) (flattenLoop i nodes p d)) = kidsOf q p nodes"
  by (induction i nodes p d rule: flattenLoop.induct) (auto simp: cleanRow_def)

lemma loadedIds_subset: "loadedIds nodes \<subseteq> set (allIds nodes)"
  by (induction nodes rule: allIds.induct) auto

lemma kidsOf_none:
  "q \<notin> Some ` set (allIds nodes) \<Longrightarrow> p \<noteq> q \<Longrightarrow> kidsOf q p nodes = []"
  by (induction q p nodes rule: kidsOf.induct) auto

lemma kidsOf_top:
  "p \<notin> Some ` set (allIds nodes) \<Longrightarrow> kidsOf p p nodes = map cleanOf nodes"
proof (induction nodes rule: allIds.induct)
  case 1
  then show ?case by simp
next
  case (2 x dat g rest)
  then show ?case by auto
next
  case (3 x dat g cs rest)
  then have "kidsOf p (Some x) cs = []" by (intro kidsOf_none) auto
  with 3 show ?case by auto
qed

lemma agrees_cong:
  "(\<And>y. y \<in> loadedIds nodes \<Longrightarrow> A y = B y) \<Longrightarrow> agrees A nodes = agrees B nodes"
proof (induction nodes rule: allIds.induct)
  case 1
  then show ?case by simp
next
  case (2 x dat g rest)
  then show ?case by simp
next
  case (3 x dat g cs rest)
  have "agrees A cs = agrees B cs" using "3.prems" by (intro "3.IH"(1)) simp
  moreover have "agrees A rest = agrees B rest" using "3.prems" by (intro "3.IH"(2)) simp
  moreover have "A x = B x" using "3.prems" by simp
  ultimately show ?case by simp
qed

lemma agrees_kidsOf:
  "distinct (allIds nodes) \<Longrightarrow> p \<notin> Some ` set (allIds nodes) \<Longrightarrow>
   agrees (\<lambda>y. if y \<in> loadedIds nodes then Some (kidsOf (Some y) p nodes) else None) nodes"
proof (induction nodes arbitrary: p rule: allIds.induct)
  case 1
  then show ?case by simp
next
  case (2 x dat g rest)
  let ?A = "\<lambda>y. if y \<in> loadedIds (TreeNodeNested x dat g None # rest)
                  then Some (kidsOf (Some y) p (TreeNodeNested x dat g None # rest)) else None"
  let ?B = "\<lambda>y. if y \<in> loadedIds rest then Some (kidsOf (Some y) p rest) else None"
  have "agrees ?A rest = agrees ?B rest"
  proof (rule agrees_cong)
    fix y assume "y \<in> loadedIds rest"
    moreover from this have "y \<in> set (allIds rest)" using loadedIds_subset by auto
    ultimately show "?A y = ?B y" using "2.prems" by auto
  qed
  moreover have "agrees ?B rest" using "2.prems" by (intro "2.IH") auto
  ultimately show ?case by simp
next
  case (3 x dat g cs rest)
  let ?N = "TreeNodeNested x dat g (Some cs) # rest"
  let ?A = "\<lambda>y. if y \<in> loadedIds ?N then Some (kidsOf (Some y) p ?N) else None"
  let ?C = "\<lambda>y. if y \<in> loadedIds cs then Some (kidsOf (Some y) (Some x) cs) else None"
  let ?B = "\<lambda>y. if y \<in> loadedIds rest then Some (kidsOf (Some y) p rest) else None"
  from "3.prems" have dx: "x \<notin> set (allIds cs)" "x \<notin> set (allIds rest)"
    "distinct (allIds cs)" "distinct (allIds rest)" "set (allIds cs) \<inter> set (allIds rest) = {}"
    "p \<noteq> Some x" "p \<notin> Some ` set (allIds cs)" "p \<notin> Some ` set (allIds rest)"
    by auto
  have top: "kidsOf (Some x) (Some x) cs = map cleanOf cs"
    using dx(1) by (intro kidsOf_top) auto
  have "kidsOf (Some x) p rest = []"
    using dx by (intro kidsOf_none) auto
  with top dx have ax: "?A x = Some (map cleanOf cs)" by simp
  have "agrees ?A cs = agrees ?C cs"
  proof (rule agrees_cong)
    fix y assume y: "y \<in> loadedIds cs"
    then have yc: "y \<in> set (allIds cs)" using loadedIds_subset by auto
    with dx have yn: "y \<notin> set (allIds rest)" by auto
    have py: "p \<noteq> Some y" using yc dx by auto
    from yn py have "kidsOf (Some y) p rest = []" by (intro kidsOf_none) auto
    with py show "?A y = ?C y" using y by simp
  qed
  moreover have "agrees ?C cs" using dx by (intro "3.IH"(1)) auto
  moreover have "agrees ?A rest = agrees ?B rest"
  proof (rule agrees_cong)
    fix y assume y: "y \<in> loadedIds rest"
    then have yr: "y \<in> set (allIds rest)" using loadedIds_subset by auto
    with dx have yn: "y \<notin> set (allIds cs)" and "y \<noteq> x" by auto
    from yn \<open>y \<noteq> x\<close> have "kidsOf (Some y) (Some x) cs = []" by (intro kidsOf_none) auto
    moreover have "p \<noteq> Some y" using yr dx by auto
    ultimately show "?A y = ?B y" using y \<open>y \<noteq> x\<close> by simp
  qed
  moreover have "agrees ?B rest" using dx by (intro "3.IH"(2)) auto
  ultimately show ?case using ax by simp
qed

lemma those_map_Cons:
  "those (map f (c # cs)) =
     (case f c of None \<Rightarrow> None | Some t \<Rightarrow> map_option ((#) t) (those (map f cs)))"
  by simp

lemma readNode_leaf:
  "0 < k \<Longrightarrow> readNode k A (cleanOf (TreeNodeNested x dat g None)) =
     Some (TreeNodeNested x dat
       (if (case g of Some b \<Rightarrow> b | None \<Rightarrow> False) then Some True else None) None)"
  by (cases k) simp_all

lemma readNode_inner:
  "A x = Some cs' \<Longrightarrow> those (map (readNode k' A) cs') = Some ts \<Longrightarrow>
   readNode (Suc k') A (cleanOf (TreeNodeNested x dat g (Some cs))) =
     Some (TreeNodeNested x dat
       (if (case g of Some b \<Rightarrow> b | None \<Rightarrow> cs \<noteq> []) then Some True else None) (Some ts))"
  by simp

lemma readNode_agrees:
  "agrees A nodes \<Longrightarrow> height nodes \<le> k \<Longrightarrow>
   those (map (readNode k A) (map cleanOf nodes)) = Some (derivedIsGroup nodes)"
proof (induction nodes arbitrary: k rule: allIds.induct)
  case 1
  then show ?case by simp
next
  case (2 x dat g rest)
  have "0 < k" using "2.prems" by simp
  note hd = readNode_leaf [OF this, of A x dat g]
  have "those (map (readNode k A) (map cleanOf rest)) = Some (derivedIsGroup rest)"
    using "2.prems" by (intro "2.IH") auto
  with hd show ?case by (simp del: readNode.simps cleanOf.simps)
next
  case (3 x dat g cs rest)
  then obtain k' where k: "k = Suc k'" by (cases k) auto
  have kids: "those (map (readNode k' A) (map cleanOf cs)) = Some (derivedIsGroup cs)"
    using "3.prems" k by (intro "3.IH"(1)) auto
  have ax: "A x = Some (map cleanOf cs)" using "3.prems" by simp
  note hd = readNode_inner [OF ax kids, of dat g cs]
  have "those (map (readNode k A) (map cleanOf rest)) = Some (derivedIsGroup rest)"
    using "3.prems" by (intro "3.IH"(2)) auto
  with hd show ?case unfolding k by (simp del: readNode.simps cleanOf.simps)
qed

lemma height_le: "height nodes \<le> length (allIds nodes)"
  by (induction nodes rule: allIds.induct) auto

lemma loadedIds_rows:
  "y \<in> loadedIds nodes \<Longrightarrow> \<exists>f \<in> set (flattenLoop i nodes p d). fid f = y \<and> childrenLoaded f"
  by (induction i nodes p d rule: flattenLoop.induct) auto

text \<open>
  C1, as the claim states it, fails. \<open>looseTree\<close> has no lazy group; its node \<open>a\<close> holds a child
  and says \<^verbatim>\<open>isGroup: false\<close>, and the round trip removes the flag. In \<open>plainTree\<close> the node
  \<open>a\<close> holds a child and has no flag, and the round trip sets the flag to \<^verbatim>\<open>true\<close>.
\<close>

theorem roundTrip_isGroup_counterexample:
  "builtTree (flattenTree looseTree None 0)
     = Some [TreeNodeNested ''a'' () None (Some [TreeNodeNested ''c'' () None None])]
   \<and> \<not> sameUpToDefault looseTree
         [TreeNodeNested ''a'' () None (Some [TreeNodeNested ''c'' () None None])]
   \<and> builtTree (flattenTree plainTree None 0)
     = Some [TreeNodeNested ''a'' () (Some True) (Some [TreeNodeNested ''c'' () None None])]
   \<and> \<not> sameUpToDefault plainTree
         [TreeNodeNested ''a'' () (Some True) (Some [TreeNodeNested ''c'' () None None])]"
  by (simp add: builtTree_def readTree_def buildTree_def flattenTree_def looseTree_def
      plainTree_def initialArrays_def Let_def)

text \<open>
  C1, amended. For every nested tree with unique ids, lazy groups included,
  \<^verbatim>\<open>buildTree(flattenTree(x))\<close> is a finite tree with the ids, the data, the presence of
  \<^verbatim>\<open>children\<close> and the order of the children of \<open>x\<close>; the \<^verbatim>\<open>isGroup\<close> of a node is \<^verbatim>\<open>true\<close>
  when the node of \<open>x\<close> has \<^verbatim>\<open>isGroup: true\<close>, or has no flag and at least one child, and is
  absent otherwise.
\<close>

theorem roundTrip_derivedIsGroup:
  assumes "distinct (allIds nodes)"
  shows "builtTree (flattenTree nodes None 0) = Some (derivedIsGroup nodes)"
proof -
  define W where "W = flattenTree nodes None 0"
  define nm where "nm = nodeMapLoop W Map.empty"
  have pf: "parentsFirst {} W" unfolding W_def by (rule flattenTree_parentsFirst [OF assms])
  have d: "distinct (map fid W)" using parentsFirst_distinct [OF pf] by simp
  have len: "length W = length (allIds nodes)"
    unfolding W_def flattenTree_def using fid_flattenLoop [of 0 nodes None 0]
    by (metis length_map)
  have roots: "rootsOf W = map cleanOf nodes"
    unfolding rootsOf_def W_def flattenTree_def kidsOf_flattenLoop
    by (rule kidsOf_top) auto
  have "agrees (arraysOf nm W) nodes =
        agrees (\<lambda>y. if y \<in> loadedIds nodes then Some (kidsOf (Some y) None nodes) else None) nodes"
  proof (rule agrees_cong)
    fix y assume y: "y \<in> loadedIds nodes"
    from loadedIds_rows [OF y, of 0 None 0] obtain f where f: "f \<in> set W" "fid f = y" "childrenLoaded f"
      unfolding W_def flattenTree_def by blast
    have "nm y = Some f" unfolding nm_def using nodeMapLoop_distinct [OF d f(1)] f(2) by simp
    then have "arraysOf nm W y = Some (map cleanRow (filter (\<lambda>f. parentId f = Some y) W))"
      using f(3) by (simp add: arraysOf_def)
    then show "arraysOf nm W y =
        (if y \<in> loadedIds nodes then Some (kidsOf (Some y) None nodes) else None)"
      using y unfolding W_def flattenTree_def kidsOf_flattenLoop by simp
  qed
  moreover have "agrees (\<lambda>y. if y \<in> loadedIds nodes then Some (kidsOf (Some y) None nodes) else None) nodes"
    using assms by (intro agrees_kidsOf) auto
  ultimately have ag: "agrees (arraysOf nm W) nodes" by simp
  have "height nodes \<le> Suc (length W)" using height_le [of nodes] len by simp
  from readNode_agrees [OF ag this] show ?thesis
    unfolding builtTree_def readTree_def W_def [symmetric]
      buildTree_parentsFirst [OF pf] nm_def [symmetric]
    by (simp add: roots)
qed

theorem roundTrip_derivedIsGroup_witness:
  "distinct (allIds abTree)
   \<and> builtTree (flattenTree abTree None 0) = Some abTree
   \<and> derivedIsGroup abTree = abTree"
  using roundTrip_derivedIsGroup [of abTree]
  by (simp add: abTree_def)

section \<open>The ancestor relation and \<^verbatim>\<open>getAncestorIds\<close>\<close>

text \<open>
  On a well-formed array \<^verbatim>\<open>getAncestorIds\<close> ends and returns exactly the ancestors of the relation
  \<open>isAncestor\<close>, in which the theorems on visibility and on collapsing are stated.
\<close>

lemma ancestorLoop_parentsFirst:
  assumes pf: "parentsFirst {} flat" and nm: "nm = nodeMapLoop flat Map.empty"
  shows "flat = pre @ n # rest \<Longrightarrow> length pre < fuel \<Longrightarrow>
         \<exists>anc. ancestorLoop fuel nm (Some n) acc = Some (acc @ anc)
               \<and> set anc = {a. isAncestor flat a (fid n)}"
proof (induction "length pre" arbitrary: pre n rest fuel acc rule: less_induct)
  case less
  have d: "distinct (map fid flat)" using parentsFirst_distinct [OF pf] by simp
  have nin: "n \<in> set flat" using less.prems by simp
  obtain k where fuel: "fuel = Suc k" using less.prems(2) by (cases fuel) auto
  show ?case
  proof (cases "parentId n")
    case None
    have "{a. isAncestor flat a (fid n)} = {}"
      using isAncestor_inv [OF d nin] None by simp
    then show ?thesis using None by (simp add: fuel)
  next
    case (Some p)
    have pfm: "parentsFirst {} (pre @ n # rest)" using pf less.prems by simp
    from parentsFirst_mid(2) [OF pfm Some] obtain m where m: "m \<in> set pre" "fid m = p" by auto
    then obtain p1 p2 where sp: "pre = p1 @ m # p2" by (meson split_list)
    have min: "m \<in> set flat" using less.prems m by simp
    have nmp: "nm p = Some m" unfolding nm using nodeMapLoop_distinct [OF d min] m(2) by simp
    have flat': "flat = p1 @ m # (p2 @ n # rest)" using less.prems sp by simp
    have "length p1 < length pre" using sp by simp
    moreover have "length p1 < k" using sp less.prems(2) fuel by simp
    ultimately obtain anc where anc: "ancestorLoop k nm (Some m) (acc @ [p]) = Some ((acc @ [p]) @ anc)"
      "set anc = {a. isAncestor flat a (fid m)}"
      using less.hyps [OF _ flat', of k "acc @ [p]"] by blast
    have "{a. isAncestor flat a (fid n)} = insert p {a. isAncestor flat a p}"
      using isAncestor_inv [OF d nin] Some by auto
    with anc m(2) have "set (p # anc) = {a. isAncestor flat a (fid n)}" by simp
    moreover have "ancestorLoop fuel nm (Some n) acc = Some (acc @ p # anc)"
      using Some nmp anc(1) by (simp add: fuel)
    ultimately show ?thesis by blast
  qed
qed

lemma getAncestorIds_isAncestor:
  assumes "parentsFirst {} flat" and "n \<in> set flat"
  shows "\<exists>anc. getAncestorIds flat (fid n) = Some anc \<and> set anc = {a. isAncestor flat a (fid n)}"
proof -
  from assms(2) obtain pre rest where sp: "flat = pre @ n # rest" by (meson split_list)
  have d: "distinct (map fid flat)" using parentsFirst_distinct [OF assms(1)] by simp
  have "nodeMapLoop flat Map.empty (fid n) = Some n" by (rule nodeMapLoop_distinct [OF d assms(2)])
  moreover have "length pre < Suc (length flat)" using sp by simp
  ultimately show ?thesis
    unfolding getAncestorIds_def Let_def
    using ancestorLoop_parentsFirst [OF assms(1) refl sp, of "Suc (length flat)" "[]"] by simp
qed

section \<open>Children of a parent whose children are not loaded\<close>

text \<open>
  C10. In \<open>lazyDrop\<close> the parent chain of \<open>x\<close> ends at \<^verbatim>\<open>null\<close> and every parent it names is
  in the array, yet \<open>x\<close> is not in the tree that \<^verbatim>\<open>buildTree\<close> returns: the copy of \<open>g\<close> is
  made while \<open>g\<close> has no array, and the array that \<^verbatim>\<open>parent.children = []\<close> creates for
  \<open>x\<close> afterwards is not the copy's. With the two nodes in the other order the array exists
  when the copy is made, and \<open>x\<close> is in the tree. Such an array arises when, in
  \<open>lazyTree\<close>, the leaf \<open>x\<close> is dragged onto the lazy group \<open>g\<close>, one indentation to the
  right, and dropped: \<^verbatim>\<open>onItemsChange\<close> receives a tree without \<open>x\<close>.
\<close>

lemma dragInto_lazyGroup:
  "handleDragOver (treeOptions ''t'' lazyTree {}) idleSession (dragBy ''x'' ''g'' 20)
     = idleSession\<lparr>overId := Some ''g'', dropPosition := Some Inside, projectedDepth := Some 1,
         projectedParentId := Some ''g'', dropPositionRef := Some Inside,
         projectedDepthRef := Some 1, projectedParentIdRef := Some ''g'',
         hoverTarget := Some ''g'', hoverTimer := Some ''g'', offsetX := 20\<rparr>"
  by (simp add: handleDragOver_def treeOptions_def lazyTree_def dragBy_def idleSession_def
      flattenTree_def getVisibleNodes_def getProjection_def Math_round_def Let_def
      withDescendants_def getDescendantIds_def)

theorem buildTree_unloaded_parent_loses_child:
  "builtTree lazyDrop = Some [TreeNodeNested ''g'' () (Some True) None]
   \<and> builtTree (rev lazyDrop)
       = Some [TreeNodeNested ''g'' () (Some True) (Some [TreeNodeNested ''x'' () None None])]
   \<and> parentsFirst {} lazyDrop
   \<and> snd (handleDragEnd (treeOptions ''t'' lazyTree {})
         (handleDragOver (treeOptions ''t'' lazyTree {}) idleSession (dragBy ''x'' ''g'' 20))
         (dragBy ''x'' ''g'' 20))
       = [ItemsChange (Some [TreeNodeNested ''g'' () (Some True) None])]"
proof -
  have a: "builtTree lazyDrop = Some [TreeNodeNested ''g'' () (Some True) None]
     \<and> builtTree (rev lazyDrop)
       = Some [TreeNodeNested ''g'' () (Some True) (Some [TreeNodeNested ''x'' () None None])]
     \<and> parentsFirst {} lazyDrop"
    by (simp add: builtTree_def readTree_def buildTree_def lazyDrop_def initialArrays_def Let_def)
  have c: "snd (handleDragEnd (treeOptions ''t'' lazyTree {})
         (handleDragOver (treeOptions ''t'' lazyTree {}) idleSession (dragBy ''x'' ''g'' 20))
         (dragBy ''x'' ''g'' 20))
       = [ItemsChange (Some [TreeNodeNested ''g'' () (Some True) None])]"
    unfolding dragInto_lazyGroup
    by (simp add: handleDragEnd_def treeOptions_def lazyTree_def dragBy_def idleSession_def
        flattenTree_def Let_def withDescendants_def getDescendantIds_def rootIdsToMove_def
        movedFlatNodes_def removeNodes_def reindexSiblings_def dropIndex_def
        builtTree_def readTree_def buildTree_def initialArrays_def)
  from a c show ?thesis by simp
qed

section \<open>The end of a drag across two trees\<close>

lemma handleDragEnd_canceled:
  "opCanceled op \<Longrightarrow> handleDragEnd opts st op = (endedSession st, [])"
  by (simp add: handleDragEnd_def endedSession_def)

lemma find_treeId:
  assumes "distinct (map (\<lambda>r. treeId (regOptions r)) regs)" and "tree \<in> set regs"
  shows "find (\<lambda>reg. treeId (regOptions reg) = treeId (regOptions tree)) regs = Some tree"
  using assms
proof (induction regs)
  case Nil
  then show ?case by simp
next
  case (Cons r regs)
  then show ?case by (cases "r = tree") (auto simp: image_iff)
qed

lemma endOne_canceled:
  assumes "distinct (map (\<lambda>r. treeId (regOptions r)) regs)" and "tree \<in> set regs"
    and "opCanceled op"
  shows "endOne regs tree op =
           (map (\<lambda>r. if treeId (regOptions r) = treeId (regOptions tree)
                     then r\<lparr>regSession := endedSession (regSession tree)\<rparr> else r) regs, [])"
  unfolding endOne_def find_treeId [OF assms(1,2)]
  by (simp add: handleDragEnd_canceled [OF assms(3)])

lemma find_Some_mem: "find P xs = Some x \<Longrightarrow> x \<in> set xs \<and> P x"
  by (induction xs) (auto split: if_splits)

text \<open>
  C9. When the source id is owned by one registered tree and the target id by another, the
  group's drag-end handler resets the sessions of both trees (each tree's own handler runs with
  \<^verbatim>\<open>canceled: true\<close>), no tree emits a callback of its own (no structural change, no drag-end
  event), the other registrations are untouched, and the group's \<^verbatim>\<open>onDragEnd\<close>, when configured,
  is called exactly once, with the source tree id, the target tree id and the drop position,
  projected depth and projected parent that the target tree held before the reset.
\<close>

theorem crossTree_dragEnd:
  fixes grp :: "'a DndGroup" and op :: DragOperation and sourceTree targetTree :: "'a Registration"
  assumes ids: "distinct (map (\<lambda>r. treeId (regOptions r)) (registrations grp))"
    and src: "opSource op = Some sourceId"
      "findOwnerTree (registrations grp) sourceId = Some sourceTree"
    and tgt: "opTarget op = Some targetId"
      "findOwnerTree (registrations grp) targetId = Some targetTree"
    and differ: "treeId (regOptions sourceTree) \<noteq> treeId (regOptions targetTree)"
  shows "groupHandleDragEnd hasGroupOnDragEnd grp op =
           \<lparr>groupAfter =
              \<lparr>registrations =
                 map (\<lambda>r. if r = sourceTree \<or> r = targetTree
                           then r\<lparr>regSession := endedSession (regSession r)\<rparr> else r)
                   (registrations grp),
               lastOverTree = None\<rparr>,
            groupEmitted =
              (if hasGroupOnDragEnd
               then [(op, Some \<lparr>crossSourceTreeId = treeId (regOptions sourceTree),
                                 crossTargetTreeId = treeId (regOptions targetTree),
                                 crossDropPosition = dropPosition (regSession targetTree),
                                 crossProjectedDepth = projectedDepth (regSession targetTree),
                                 crossProjectedParentId =
                                   projectedParentId (regSession targetTree)\<rparr>)]
               else []),
            treeEmitted = []\<rparr>"
proof -
  let ?regs = "registrations grp"
  let ?key = "\<lambda>r. treeId (regOptions r)"
  let ?c = "op\<lparr>opCanceled := True\<rparr>"
  have sin: "sourceTree \<in> set ?regs" and tin: "targetTree \<in> set ?regs"
    using src(2) tgt(2) unfolding findOwnerTree_def by (auto dest: find_Some_mem)
  define regs1 where "regs1 = map (\<lambda>r. if ?key r = ?key sourceTree
                     then r\<lparr>regSession := endedSession (regSession sourceTree)\<rparr> else r) ?regs"
  have e1: "endOne ?regs sourceTree ?c = (regs1, [])"
    unfolding regs1_def by (rule endOne_canceled [OF ids sin]) simp
  have keys1: "map ?key regs1 = map ?key ?regs"
    unfolding regs1_def by (simp add: comp_def)
  have tin1: "targetTree \<in> set regs1"
    unfolding regs1_def using tin differ by (auto simp: image_iff)
  define regs2 where "regs2 = map (\<lambda>r. if ?key r = ?key targetTree
                     then r\<lparr>regSession := endedSession (regSession targetTree)\<rparr> else r) regs1"
  have e2: "endOne regs1 targetTree ?c = (regs2, [])"
    unfolding regs2_def by (rule endOne_canceled [OF _ tin1]) (simp_all add: keys1 ids)
  have inj: "r = t" if "r \<in> set ?regs" "t \<in> set ?regs" "?key r = ?key t" for r t
    using ids that by (meson distinct_map inj_onD)
  have "regs2 = map (\<lambda>r. if r = sourceTree \<or> r = targetTree
                           then r\<lparr>regSession := endedSession (regSession r)\<rparr> else r) ?regs"
    unfolding regs2_def regs1_def map_map
  proof (rule map_cong [OF refl])
    fix r assume r: "r \<in> set ?regs"
    show "((\<lambda>r. if ?key r = ?key targetTree
                then r\<lparr>regSession := endedSession (regSession targetTree)\<rparr> else r) \<circ>
           (\<lambda>r. if ?key r = ?key sourceTree
                then r\<lparr>regSession := endedSession (regSession sourceTree)\<rparr> else r)) r =
          (if r = sourceTree \<or> r = targetTree
           then r\<lparr>regSession := endedSession (regSession r)\<rparr> else r)"
      using inj [OF r sin] inj [OF r tin] differ by auto
  qed
  then show ?thesis
    unfolding groupHandleDragEnd_def Let_def
    using src tgt differ e1 e2 by simp
qed

theorem crossTree_dragEnd_witness:
  "groupEmitted (groupHandleDragEnd True twoTrees (dragOnto ''a1'' ''q'')) =
     [(dragOnto ''a1'' ''q'',
       Some \<lparr>crossSourceTreeId = ''A'', crossTargetTreeId = ''B'',
             crossDropPosition = Some After, crossProjectedDepth = Some 1,
             crossProjectedParentId = Some ''p''\<rparr>)]
   \<and> treeEmitted (groupHandleDragEnd True twoTrees (dragOnto ''a1'' ''q'')) = []
   \<and> map regSession (registrations (groupAfter
         (groupHandleDragEnd True twoTrees (dragOnto ''a1'' ''q'')))) = [idleSession, idleSession]"
proof -
  let ?A = "\<lparr>regOptions = treeOptions ''A'' abTree {''a''},
             regSession = idleSession\<lparr>activeId := Some ''a1''\<rparr>\<rparr>"
  let ?B = "\<lparr>regOptions = treeOptions ''B'' otherTree {''p''}, regSession = hoveringSession\<rparr>"
  have 1: "distinct (map (\<lambda>r. treeId (regOptions r)) (registrations twoTrees))"
    by (simp add: twoTrees_def treeOptions_def)
  have 2: "opSource (dragOnto ''a1'' ''q'') = Some ''a1''"
    and 4: "opTarget (dragOnto ''a1'' ''q'') = Some ''q''"
    by (simp_all add: dragOnto_def)
  have 3: "findOwnerTree (registrations twoTrees) ''a1'' = Some ?A"
    by (simp add: findOwnerTree_def twoTrees_def treeOptions_def flattenTree_def abTree_def)
  have 5: "findOwnerTree (registrations twoTrees) ''q'' = Some ?B"
    by (simp add: findOwnerTree_def twoTrees_def treeOptions_def flattenTree_def abTree_def
        otherTree_def)
  have 6: "treeId (regOptions ?A) \<noteq> treeId (regOptions ?B)"
    by (simp add: treeOptions_def)
  show ?thesis
    unfolding crossTree_dragEnd [OF 1 2 3 4 5 6]
    by (simp add: twoTrees_def treeOptions_def hoveringSession_def idleSession_def
        endedSession_def resetState_def)
qed

section \<open>Dropping a node into its own subtree\<close>

text \<open>
  The guard of \<^verbatim>\<open>handleDragEnd\<close> rejects a drop whose projected parent is in the moving set, as
  long as the parent's id is not the empty string.
\<close>

lemma handleDragEnd_cycle_guard:
  assumes "hasOnItemsChange opts" and "projectedParentIdRef st = Some p" and "p \<noteq> []"
    and "\<And>sourceId sourceNode. opSource op = Some sourceId \<Longrightarrow>
           find (\<lambda>n. fid n = sourceId) (treeFlatNodes opts) = Some sourceNode \<Longrightarrow>
           p \<in> withDescendants (treeFlatNodes opts) (rootIdsToMove opts sourceNode)"
  shows "handleDragEnd opts st op = (endedSession st, [])"
  using assms
  by (auto simp: handleDragEnd_def endedSession_def Let_def split: option.splits)

text \<open>
  C4. Two drops into the moving set that \<^verbatim>\<open>handleDragEnd\<close> does not reject.

  In \<open>abTree\<close> with \<open>a\<close> expanded, \<open>a\<close> is dragged over its own child \<open>a1\<close>, one indentation
  to the right. The projection makes \<open>a\<close> itself the parent, and \<^verbatim>\<open>handleDragOver\<close> rejects the
  hover: it clears \<^verbatim>\<open>overId\<close> and \<^verbatim>\<open>dropPosition\<close> and leaves the refs as they were, here empty.
  \<^verbatim>\<open>handleDragEnd\<close> reads the refs, finds no projected parent, and moves \<open>a\<close> with its child
  to the end of the roots: \<^verbatim>\<open>onItemsChange\<close> is called with \<open>b\<close> before \<open>a\<close>.

  The guard of \<^verbatim>\<open>handleDragEnd\<close> tests \<^verbatim>\<open>currentProjectedParentId && ...\<close>, and the empty string is
  falsy. A tree of one expanded group without children and with id \<^verbatim>\<open>""\<close> is dragged onto itself:
  hovering sets the projected parent to the node itself, and the drop is not rejected;
  \<^verbatim>\<open>onItemsChange\<close> is called with the empty tree. The same with the id \<open>y\<close> is rejected and emits
  nothing.
\<close>

theorem dragEnd_into_own_subtree_not_rejected:
  "projParentId (getProjection (treeFlatNodes (treeOptions ''t'' abTree {''a''}))
       (treeVisibleNodes (treeOptions ''t'' abTree {''a''})) ''a'' ''a1'' 20 20) = Some ''a''
   \<and> ''a'' \<in> withDescendants (treeFlatNodes (treeOptions ''t'' abTree {''a''})) [''a'']
   \<and> handleDragOver (treeOptions ''t'' abTree {''a''}) idleSession (dragBy ''a'' ''a1'' 20)
       = idleSession\<lparr>offsetX := 20\<rparr>
   \<and> snd (handleDragEnd (treeOptions ''t'' abTree {''a''}) (idleSession\<lparr>offsetX := 20\<rparr>)
          (dragBy ''a'' ''a1'' 20))
       = [ItemsChange (Some [TreeNodeNested ''b'' () None None,
            TreeNodeNested ''a'' () (Some True) (Some [TreeNodeNested ''a1'' () None None])])]
   \<and> projectedParentIdRef (handleDragOver (treeOptions ''t'' emptyIdTree {[]}) idleSession
       (dragOnto [] [])) = Some []
   \<and> [] \<in> withDescendants (treeFlatNodes (treeOptions ''t'' emptyIdTree {[]})) [[]]
   \<and> snd (handleDragEnd (treeOptions ''t'' emptyIdTree {[]})
          (handleDragOver (treeOptions ''t'' emptyIdTree {[]}) idleSession (dragOnto [] []))
          (dragOnto [] [])) = [ItemsChange (Some [])]
   \<and> projectedParentIdRef (handleDragOver (treeOptions ''t'' namedTree {''y''}) idleSession
       (dragOnto ''y'' ''y'')) = Some ''y''
   \<and> snd (handleDragEnd (treeOptions ''t'' namedTree {''y''})
          (handleDragOver (treeOptions ''t'' namedTree {''y''}) idleSession (dragOnto ''y'' ''y''))
          (dragOnto ''y'' ''y'')) = []"
proof -
  have proj: "projParentId (getProjection (treeFlatNodes (treeOptions ''t'' abTree {''a''}))
       (treeVisibleNodes (treeOptions ''t'' abTree {''a''})) ''a'' ''a1'' 20 20) = Some ''a''"
    by (simp add: treeOptions_def abTree_def flattenTree_def getVisibleNodes_def
        getProjection_def Math_round_def Let_def)
  have overA: "handleDragOver (treeOptions ''t'' abTree {''a''}) idleSession (dragBy ''a'' ''a1'' 20)
      = idleSession\<lparr>offsetX := 20\<rparr>"
    by (simp add: handleDragOver_def treeOptions_def abTree_def dragBy_def idleSession_def
        flattenTree_def getVisibleNodes_def getProjection_def Math_round_def Let_def
        withDescendants_def getDescendantIds_def)
  have endA: "snd (handleDragEnd (treeOptions ''t'' abTree {''a''}) (idleSession\<lparr>offsetX := 20\<rparr>)
          (dragBy ''a'' ''a1'' 20))
       = [ItemsChange (Some [TreeNodeNested ''b'' () None None,
            TreeNodeNested ''a'' () (Some True) (Some [TreeNodeNested ''a1'' () None None])])]"
    by (simp add: handleDragEnd_def treeOptions_def abTree_def dragBy_def idleSession_def
        flattenTree_def Let_def withDescendants_def getDescendantIds_def rootIdsToMove_def
        movedFlatNodes_def removeNodes_def reindexSiblings_def dropIndex_def
        builtTree_def readTree_def buildTree_def initialArrays_def)
  have over0: "handleDragOver (treeOptions ''t'' emptyIdTree {[]}) idleSession (dragOnto [] [])
      = idleSession\<lparr>overId := Some [], dropPosition := Some Inside, projectedDepth := Some 1,
          projectedParentId := Some [], dropPositionRef := Some Inside,
          projectedDepthRef := Some 1, projectedParentIdRef := Some [], hoverTarget := Some []\<rparr>"
    by (simp add: handleDragOver_def treeOptions_def emptyIdTree_def dragOnto_def idleSession_def
        flattenTree_def getVisibleNodes_def getProjection_def Math_round_def Let_def
        withDescendants_def getDescendantIds_def)
  have overY: "handleDragOver (treeOptions ''t'' namedTree {''y''}) idleSession (dragOnto ''y'' ''y'')
      = idleSession\<lparr>overId := Some ''y'', dropPosition := Some Inside, projectedDepth := Some 1,
          projectedParentId := Some ''y'', dropPositionRef := Some Inside,
          projectedDepthRef := Some 1, projectedParentIdRef := Some ''y'',
          hoverTarget := Some ''y''\<rparr>"
    by (simp add: handleDragOver_def treeOptions_def namedTree_def dragOnto_def idleSession_def
        flattenTree_def getVisibleNodes_def getProjection_def Math_round_def Let_def
        withDescendants_def getDescendantIds_def)
  have end0: "snd (handleDragEnd (treeOptions ''t'' emptyIdTree {[]})
          (handleDragOver (treeOptions ''t'' emptyIdTree {[]}) idleSession (dragOnto [] []))
          (dragOnto [] [])) = [ItemsChange (Some [])]"
    unfolding over0
    by (simp add: handleDragEnd_def treeOptions_def emptyIdTree_def dragOnto_def idleSession_def
        flattenTree_def Let_def withDescendants_def getDescendantIds_def rootIdsToMove_def
        movedFlatNodes_def removeNodes_def reindexSiblings_def dropIndex_def
        builtTree_def readTree_def buildTree_def initialArrays_def)
  have endY: "snd (handleDragEnd (treeOptions ''t'' namedTree {''y''})
          (handleDragOver (treeOptions ''t'' namedTree {''y''}) idleSession (dragOnto ''y'' ''y''))
          (dragOnto ''y'' ''y'')) = []"
    unfolding overY
    by (simp add: handleDragEnd_def treeOptions_def namedTree_def dragOnto_def idleSession_def
        flattenTree_def Let_def withDescendants_def getDescendantIds_def rootIdsToMove_def)
  have "[] \<in> withDescendants (treeFlatNodes (treeOptions ''t'' emptyIdTree {[]})) [[]]"
    and "''a'' \<in> withDescendants (treeFlatNodes (treeOptions ''t'' abTree {''a''})) [''a'']"
    by (simp_all add: withDescendants_def)
  with proj overA endA end0 endY show ?thesis by (simp add: over0 overY)
qed

section \<open>At most one load in flight per node\<close>

lemma lazyInv_trigger: "lazyInv st \<Longrightarrow> lazyInv (triggerLoad opts node st)"
  by (auto simp: lazyInv_def triggerLoad_def)

lemma lazyInv_settle: "lazyInv st \<Longrightarrow> settle opts x outcome st = Some st' \<Longrightarrow> lazyInv st'"
  by (auto simp: lazyInv_def settle_def split: if_splits)

lemma lazyInv_run: "lazyInv st \<Longrightarrow> lazyRun opts st evs = Some st' \<Longrightarrow> lazyInv st'"
proof (induction opts st evs rule: lazyRun.induct)
  case (1 opts st)
  then show ?case by simp
next
  case (2 opts st node evs)
  then show ?case by (simp add: lazyInv_trigger)
next
  case (3 opts st x outcome evs)
  then show ?case by (auto split: option.splits dest: lazyInv_settle)
qed

text \<open>
  C8. In every state the machine reaches from the idle state, and for every lazy group node of a
  tree with a loader: no id has two outstanding loads, and the in-flight marker holds exactly the
  ids with an outstanding load; a trigger for a node whose load is outstanding changes nothing
  (the loader is not called); a trigger for a node without an outstanding load calls the loader
  once, whatever other nodes are loading; when the load resolves, \<^verbatim>\<open>insertChildren\<close> is called with
  the node and the returned children, then \<^verbatim>\<open>expand\<close>, and the marker is cleared; when the load is
  rejected, the only call is \<^verbatim>\<open>onLoadError\<close> (if one is configured), with no insertion and no
  expansion, the marker is cleared, and the next trigger calls the loader again.
\<close>

theorem lazy_load_protocol:
  fixes st :: "'a LazyState" and node :: "'a FlatTreeNode"
  assumes run: "lazyRun opts idleLazy evs = Some st"
    and lazy: "isGroup node" "\<not> childrenLoaded node" "hasLoadChildren opts"
  shows "distinct (pendingLoads st) \<and> inFlight st = set (pendingLoads st)
    \<and> (fid node \<in> set (pendingLoads st) \<longrightarrow> triggerLoad opts node st = st)
    \<and> (fid node \<notin> set (pendingLoads st) \<longrightarrow>
           lazyCalls (triggerLoad opts node st) = lazyCalls st @ [LoadChildren (fid node)]
           \<and> pendingLoads (triggerLoad opts node st) = pendingLoads st @ [fid node])
    \<and> (fid node \<in> set (pendingLoads st) \<longrightarrow>
           (\<exists>st'. settle opts (fid node) (Resolved children) st = Some st'
              \<and> lazyCalls st' = lazyCalls st @ [InsertChildren (fid node) children, Expand (fid node)]
              \<and> fid node \<notin> inFlight st' \<and> fid node \<notin> set (pendingLoads st')))
    \<and> (fid node \<in> set (pendingLoads st) \<longrightarrow>
           (\<exists>st'. settle opts (fid node) (Rejected err) st = Some st'
              \<and> lazyCalls st' = lazyCalls st @
                   (if hasOnLoadError opts then [OnLoadError (fid node) err] else [])
              \<and> fid node \<notin> inFlight st'
              \<and> lazyCalls (triggerLoad opts node st') = lazyCalls st' @ [LoadChildren (fid node)]))"
proof -
  have "lazyInv (idleLazy :: 'a LazyState)" by (simp add: lazyInv_def idleLazy_def)
  from lazyInv_run [OF this run] have inv: "lazyInv st" .
  then have 1: "distinct (pendingLoads st) \<and> inFlight st = set (pendingLoads st)"
    by (simp add: lazyInv_def)
  have 2: "fid node \<in> set (pendingLoads st) \<longrightarrow> triggerLoad opts node st = st"
    using inv by (simp add: lazyInv_def triggerLoad_def)
  have 3: "fid node \<notin> set (pendingLoads st) \<longrightarrow>
           lazyCalls (triggerLoad opts node st) = lazyCalls st @ [LoadChildren (fid node)]
           \<and> pendingLoads (triggerLoad opts node st) = pendingLoads st @ [fid node]"
    using inv lazy by (simp add: lazyInv_def triggerLoad_def)
  have 4: "fid node \<in> set (pendingLoads st) \<longrightarrow>
           (\<exists>st'. settle opts (fid node) (Resolved children) st = Some st'
              \<and> lazyCalls st' = lazyCalls st @ [InsertChildren (fid node) children, Expand (fid node)]
              \<and> fid node \<notin> inFlight st' \<and> fid node \<notin> set (pendingLoads st'))"
    using inv by (auto simp: lazyInv_def settle_def)
  have 5: "fid node \<in> set (pendingLoads st) \<longrightarrow>
           (\<exists>st'. settle opts (fid node) (Rejected err) st = Some st'
              \<and> lazyCalls st' = lazyCalls st @
                   (if hasOnLoadError opts then [OnLoadError (fid node) err] else [])
              \<and> fid node \<notin> inFlight st'
              \<and> lazyCalls (triggerLoad opts node st') = lazyCalls st' @ [LoadChildren (fid node)])"
    using inv lazy by (auto simp: lazyInv_def settle_def triggerLoad_def)
  from 1 2 3 4 5 show ?thesis by blast
qed

theorem lazy_load_protocol_witness:
  "lazyRun withLoader idleLazy [Trigger lazyGroup, Trigger otherLazyGroup] =
     Some \<lparr>inFlight = {''g'', ''h''}, loadingIds = {''g'', ''h''}, pendingLoads = [''g'', ''h''],
           lazyCalls = [LoadChildren ''g'', LoadChildren ''h'']\<rparr>
   \<and> triggerLoad withLoader lazyGroup
        \<lparr>inFlight = {''g'', ''h''}, loadingIds = {''g'', ''h''}, pendingLoads = [''g'', ''h''],
         lazyCalls = [LoadChildren ''g'', LoadChildren ''h'' :: unit LazyCall]\<rparr>
       = \<lparr>inFlight = {''g'', ''h''}, loadingIds = {''g'', ''h''}, pendingLoads = [''g'', ''h''],
          lazyCalls = [LoadChildren ''g'', LoadChildren ''h'']\<rparr>
   \<and> map_option lazyCalls (lazyRun withLoader idleLazy
         [Trigger lazyGroup, Trigger lazyGroup,
          Settle ''g'' (Resolved [TreeNodeNested ''g1'' () None None])]) =
       Some [LoadChildren ''g'', InsertChildren ''g'' [TreeNodeNested ''g1'' () None None],
             Expand ''g'']
   \<and> map_option lazyCalls (lazyRun withLoader idleLazy
         [Trigger lazyGroup, Settle ''g'' (Rejected ''offline''), Trigger lazyGroup]) =
       Some [LoadChildren ''g'', OnLoadError ''g'' ''offline'', LoadChildren ''g'' :: unit LazyCall]"
proof -
  let ?st = "\<lparr>inFlight = {''g'', ''h''}, loadingIds = {''g'', ''h''}, pendingLoads = [''g'', ''h''],
              lazyCalls = [LoadChildren ''g'', LoadChildren ''h'' :: unit LazyCall]\<rparr>"
  have run: "lazyRun withLoader idleLazy [Trigger lazyGroup, Trigger otherLazyGroup] = Some ?st"
    by (simp add: triggerLoad_def withLoader_def idleLazy_def lazyGroup_def otherLazyGroup_def)
       (auto simp: insert_commute)
  have lazy: "isGroup lazyGroup" "\<not> childrenLoaded lazyGroup" "hasLoadChildren withLoader"
    by (simp_all add: lazyGroup_def withLoader_def)
  from lazy_load_protocol [OF run lazy]
  have "triggerLoad withLoader lazyGroup ?st = ?st"
    by (simp add: lazyGroup_def)
  moreover have "map_option lazyCalls (lazyRun withLoader idleLazy
         [Trigger lazyGroup, Trigger lazyGroup,
          Settle ''g'' (Resolved [TreeNodeNested ''g1'' () None None])]) =
       Some [LoadChildren ''g'', InsertChildren ''g'' [TreeNodeNested ''g1'' () None None],
             Expand ''g'']"
    by (simp add: triggerLoad_def settle_def withLoader_def idleLazy_def lazyGroup_def)
  moreover have "map_option lazyCalls (lazyRun withLoader idleLazy
         [Trigger lazyGroup, Settle ''g'' (Rejected ''offline''), Trigger lazyGroup]) =
       Some [LoadChildren ''g'', OnLoadError ''g'' ''offline'', LoadChildren ''g'' :: unit LazyCall]"
    by (simp add: triggerLoad_def settle_def withLoader_def idleLazy_def lazyGroup_def)
  ultimately show ?thesis using run by simp
qed

end
